theory Spec2Isabelle
  imports Complex_Main "HOL-Library.Multiset" "HOL-Library.Sublist"
begin

text \<open>
  A shallow embedding of the telemetry pipeline of komkomunikacijos-ld: the line decoder
  of parser.go, the bounded channel between the serial reader and the frame handler and
  the drain loop of main.go, and the MySQL store with its CSV and JSON export. Functions
  of the Go standard library, the database server and the file system are parameters of
  the model; everything the repository's own code does is a definition below, and each
  property is proved for every instance of the parameters.
\<close>

section \<open>Go values used by the telemetry pipeline\<close>

text \<open>
  Go strings are byte strings; \<^typ>\<open>string\<close> is a list of 8-bit characters, so the two
  agree. Errors are values: \<open>errors.New\<close> builds an \<open>ErrorString\<close>, \<open>fmt.Errorf\<close> with
  \<open>%w\<close> wraps an error under a message, \<open>strconv\<close> reports a \<open>NumError\<close> (function name
  and offending input), and \<open>sql.ErrNoRows\<close> is the sentinel of \<open>database/sql\<close>.
\<close>

datatype error =
    ErrorString string
  | WrapError string error
  | NumError string string
  | ErrNoRows

text \<open>
  \<open>Packet\<close> of parser.go. The float type is a parameter \<open>'f\<close> (IEEE doubles are not
  modelled); its zero is Go's zero value. \<open>Acceleration\<close> is the array \<open>[3]float64\<close>, a
  list that is only ever updated at the indices 0, 1 and 2.
\<close>

record 'f Packet =
  Time :: string
  Latitude :: 'f
  Longitude :: 'f
  Satellites :: int
  Acceleration :: "'f list"

definition zeroPacket :: "('f::zero) Packet" where
  "zeroPacket = \<lparr>Time = [], Latitude = 0, Longitude = 0, Satellites = 0, Acceleration = [0, 0, 0]\<rparr>"

text \<open>
  The two functions of package \<open>strconv\<close> that ParsePacket calls. They belong to the Go
  standard library, not to this repository, and are taken as parameters: a result is
  \<open>Inr v\<close> when the call returns \<open>(v, nil)\<close> and \<open>Inl e\<close> when it returns the error \<open>e\<close>.
\<close>

record 'f strconv =
  ParseFloat :: "string \<Rightarrow> error + 'f"
  Atoi :: "string \<Rightarrow> error + int"

section \<open>Package strings\<close>

definition HasPrefix :: "string \<Rightarrow> string \<Rightarrow> bool" where
  "HasPrefix s p = (take (length p) s = p)"

definition HasSuffix :: "string \<Rightarrow> string \<Rightarrow> bool" where
  "HasSuffix s p = (length p \<le> length s \<and> drop (length s - length p) s = p)"

definition TrimPrefix :: "string \<Rightarrow> string \<Rightarrow> string" where
  "TrimPrefix s p = (if HasPrefix s p then drop (length p) s else s)"

text \<open>
  \<open>strings.Split(s, sep)\<close> for a separator of one byte, the only kind the decoder uses
  (\<open>";"\<close>, \<open>":"\<close> and \<open>","\<close>): one more part than there are separators, the empty string
  giving the single part \<open>""\<close>. The result is never empty, so the last case of the
  second equation is never taken.
\<close>

fun Split :: "string \<Rightarrow> char \<Rightarrow> string list" where
  "Split [] c = [[]]"
| "Split (x # xs) c =
     (if x = c then [] # Split xs c
      else (case Split xs c of y # ys \<Rightarrow> (x # y) # ys | [] \<Rightarrow> [[x]]))"

text \<open>
  \<open>strings.TrimSpace\<close> removes the leading and the trailing runes for which
  \<open>unicode.IsSpace\<close> holds. On the bytes of a string these are the UTF-8 encodings of
  U+0009..U+000D, U+0020, U+0085, U+00A0, U+1680, U+2000..U+200A, U+2028, U+2029, U+202F,
  U+205F and U+3000; a byte sequence that is not the encoding of one of them decodes to
  another rune (or to the error rune) and stops the trimming.
\<close>

definition spaceEncodings :: "string list" where
  "spaceEncodings =
     [[CHR 0x09], [CHR 0x0A], [CHR 0x0B], [CHR 0x0C], [CHR 0x0D], [CHR 0x20],
      [CHR 0xC2, CHR 0x85], [CHR 0xC2, CHR 0xA0],
      [CHR 0xE1, CHR 0x9A, CHR 0x80],
      [CHR 0xE2, CHR 0x80, CHR 0x80], [CHR 0xE2, CHR 0x80, CHR 0x81],
      [CHR 0xE2, CHR 0x80, CHR 0x82], [CHR 0xE2, CHR 0x80, CHR 0x83],
      [CHR 0xE2, CHR 0x80, CHR 0x84], [CHR 0xE2, CHR 0x80, CHR 0x85],
      [CHR 0xE2, CHR 0x80, CHR 0x86], [CHR 0xE2, CHR 0x80, CHR 0x87],
      [CHR 0xE2, CHR 0x80, CHR 0x88], [CHR 0xE2, CHR 0x80, CHR 0x89],
      [CHR 0xE2, CHR 0x80, CHR 0x8A],
      [CHR 0xE2, CHR 0x80, CHR 0xA8], [CHR 0xE2, CHR 0x80, CHR 0xA9],
      [CHR 0xE2, CHR 0x80, CHR 0xAF],
      [CHR 0xE2, CHR 0x81, CHR 0x9F],
      [CHR 0xE3, CHR 0x80, CHR 0x80]]"

definition leadingSpace :: "string \<Rightarrow> nat" where
  "leadingSpace s = (case find (HasPrefix s) spaceEncodings of None \<Rightarrow> 0 | Some w \<Rightarrow> length w)"

definition trailingSpace :: "string \<Rightarrow> nat" where
  "trailingSpace s = (case find (HasSuffix s) spaceEncodings of None \<Rightarrow> 0 | Some w \<Rightarrow> length w)"

lemma leadingSpace_le: "leadingSpace s \<le> length s"
proof (cases "find (HasPrefix s) spaceEncodings")
  case None
  then show ?thesis by (simp add: leadingSpace_def)
next
  case (Some w)
  then have "HasPrefix s w" by (auto simp: find_Some_iff)
  then have "length w \<le> length s"
    unfolding HasPrefix_def by (metis length_take min.cobounded1)
  with Some show ?thesis by (simp add: leadingSpace_def)
qed

lemma trailingSpace_le: "trailingSpace s \<le> length s"
proof (cases "find (HasSuffix s) spaceEncodings")
  case None
  then show ?thesis by (simp add: trailingSpace_def)
next
  case (Some w)
  then have "HasSuffix s w" by (auto simp: find_Some_iff)
  then have "length w \<le> length s" by (simp add: HasSuffix_def)
  with Some show ?thesis by (simp add: trailingSpace_def)
qed

function TrimLeft :: "string \<Rightarrow> string" where
  "TrimLeft s = (if leadingSpace s = 0 then s else TrimLeft (drop (leadingSpace s) s))"
  by pat_completeness auto
termination
proof (relation "measure length")
  show "wf (measure length)" by simp
next
  fix s :: string
  assume "leadingSpace s \<noteq> 0"
  moreover have "leadingSpace s \<le> length s" by (rule leadingSpace_le)
  ultimately show "(drop (leadingSpace s) s, s) \<in> measure length" by simp
qed

function TrimRight :: "string \<Rightarrow> string" where
  "TrimRight s =
     (if trailingSpace s = 0 then s else TrimRight (take (length s - trailingSpace s) s))"
  by pat_completeness auto
termination
proof (relation "measure length")
  show "wf (measure length)" by simp
next
  fix s :: string
  assume "trailingSpace s \<noteq> 0"
  moreover have "trailingSpace s \<le> length s" by (rule trailingSpace_le)
  ultimately show "(take (length s - trailingSpace s) s, s) \<in> measure length" by simp
qed

definition TrimSpace :: "string \<Rightarrow> string" where
  "TrimSpace s = TrimRight (TrimLeft s)"

section \<open>The packet decoder (parser.go)\<close>

text \<open>
  The inner loop \<open>for i := 0; i < 3; i++\<close> of the acceleration case, over the indices
  still to visit. A component that fails to parse returns at once, with the components
  before it already stored in \<open>p\<close>.
\<close>

fun accelLoop :: "'f strconv \<Rightarrow> string list \<Rightarrow> nat list \<Rightarrow> 'f Packet \<Rightarrow> 'f Packet \<times> error option" where
  "accelLoop L nums [] p = (p, None)"
| "accelLoop L nums (i # is) p =
     (case ParseFloat L (nums ! i) of
        Inl err \<Rightarrow> (p, Some err)
      | Inr f \<Rightarrow> accelLoop L nums is (p\<lparr>Acceleration := (Acceleration p)[i := f]\<rparr>))"

text \<open>
  One iteration of \<open>for _, field := range parts[1:]\<close>: the \<open>switch\<close> on the field's prefix,
  in the source's order. The result is the packet so far and the error that makes
  ParsePacket return, if any.
\<close>

definition parseField :: "'f strconv \<Rightarrow> string \<Rightarrow> 'f Packet \<Rightarrow> 'f Packet \<times> error option" where
  "parseField L field p =
     (if HasPrefix field ''Time-'' then
        (p\<lparr>Time := TrimPrefix field ''Time-''\<rparr>, None)
      else if HasPrefix field ''Latitude-'' then
        (case ParseFloat L (TrimPrefix field ''Latitude-'') of
           Inl err \<Rightarrow> (p, Some err)
         | Inr f \<Rightarrow> (p\<lparr>Latitude := f\<rparr>, None))
      else if HasPrefix field ''Longitude-'' then
        (case ParseFloat L (TrimPrefix field ''Longitude-'') of
           Inl err \<Rightarrow> (p, Some err)
         | Inr f \<Rightarrow> (p\<lparr>Longitude := f\<rparr>, None))
      else if HasPrefix field ''Satellites-'' then
        (case Atoi L (TrimPrefix field ''Satellites-'') of
           Inl err \<Rightarrow> (p, Some err)
         | Inr n \<Rightarrow> (p\<lparr>Satellites := n\<rparr>, None))
      else if HasPrefix field ''Acceleration'' then
        (let partsAcc = Split field CHR '':'' in
         if length partsAcc \<noteq> 2 then (p, Some (ErrorString ''bad accel field''))
         else
           (let nums = Split (partsAcc ! 1) CHR '','' in
            if length nums \<noteq> 3 then (p, Some (ErrorString ''bad accel values''))
            else accelLoop L nums [0, 1, 2] p))
      else (p, None))"

fun fieldsLoop :: "'f strconv \<Rightarrow> string list \<Rightarrow> 'f Packet \<Rightarrow> 'f Packet \<times> error option" where
  "fieldsLoop L [] p = (p, None)"
| "fieldsLoop L (field # rest) p =
     (case parseField L field p of
        (p', Some err) \<Rightarrow> (p', Some err)
      | (p', None) \<Rightarrow> fieldsLoop L rest p')"

text \<open>
  ParsePacket returns the pair \<open>(Packet, error)\<close> as Go does: the second component is
  \<open>None\<close> for a \<open>nil\<close> error, and on an error the first component is whatever \<open>p\<close> held
  when the function returned.
\<close>

definition ParsePacket :: "('f::zero) strconv \<Rightarrow> string \<Rightarrow> 'f Packet \<times> error option" where
  "ParsePacket L line0 =
     (let p = zeroPacket; line = TrimSpace line0 in
      if line = [] then (p, Some (ErrorString ''empty line''))
      else
        (let parts = Split line CHR '';'' in
         if length parts < 6 then (p, Some (ErrorString ''not enough fields''))
         else fieldsLoop L (drop 1 parts) p))"

section \<open>A reference instance of the strconv parameters\<close>

text \<open>
  Plain decimal literals, read exactly: an optional sign, digits, and for floats an
  optional fraction, valued in the rationals. The theorems below hold for every instance
  of \<open>strconv\<close>; this one exercises them on concrete lines.
\<close>

definition digitOf :: "char \<Rightarrow> nat option" where
  "digitOf c = (let n = (of_char c :: nat) in if 48 \<le> n \<and> n \<le> 57 then Some (n - 48) else None)"

fun digitsValue :: "string \<Rightarrow> nat \<Rightarrow> nat option" where
  "digitsValue [] acc = Some acc"
| "digitsValue (c # cs) acc =
     (case digitOf c of None \<Rightarrow> None | Some d \<Rightarrow> digitsValue cs (10 * acc + d))"

definition signOf :: "string \<Rightarrow> bool \<times> string" where
  "signOf s =
     (case s of
        [] \<Rightarrow> (False, [])
      | c # r \<Rightarrow> if c = CHR ''-'' then (True, r) else if c = CHR ''+'' then (False, r) else (False, s))"

definition refAtoi :: "string \<Rightarrow> error + int" where
  "refAtoi s =
     (let (neg, ds) = signOf s in
      if ds = [] then Inl (NumError ''Atoi'' s)
      else
        (case digitsValue ds 0 of
           None \<Rightarrow> Inl (NumError ''Atoi'' s)
         | Some n \<Rightarrow>
             (let v = (if neg then - int n else int n) in
              if v < - (2 ^ 63) \<or> 2 ^ 63 - 1 < v then Inl (NumError ''Atoi'' s) else Inr v)))"

definition refParseFloat :: "string \<Rightarrow> error + rat" where
  "refParseFloat s =
     (let (neg, ds) = signOf s;
          ip = takeWhile (\<lambda>c. c \<noteq> CHR ''.'') ds;
          fp = drop 1 (dropWhile (\<lambda>c. c \<noteq> CHR ''.'') ds)
      in
      if ip = [] \<and> fp = [] then Inl (NumError ''ParseFloat'' s)
      else
        (case (digitsValue ip 0, digitsValue fp 0) of
           (Some a, Some b) \<Rightarrow>
             Inr ((if neg then - 1 else 1) * (of_nat a + of_nat b / 10 ^ length fp))
         | _ \<Rightarrow> Inl (NumError ''ParseFloat'' s)))"

definition refStrconv :: "rat strconv" where
  "refStrconv = \<lparr>ParseFloat = refParseFloat, Atoi = refAtoi\<rparr>"

section \<open>The decoder's contract\<close>

text \<open>
  The five keys of the wire format, what it means for a \<open>strconv\<close> function to parse its
  input (it returns no error), and the fields that follow the ignored first one, as the
  decoder sees them: the parts of the trimmed line.
\<close>

datatype key = KTime | KLatitude | KLongitude | KSatellites | KAcceleration

definition parses :: "(string \<Rightarrow> error + 'a) \<Rightarrow> string \<Rightarrow> bool" where
  "parses f s = (case f s of Inl _ \<Rightarrow> False | Inr _ \<Rightarrow> True)"

definition fieldsOf :: "string \<Rightarrow> string list" where
  "fieldsOf line = drop 1 (Split (TrimSpace line) CHR '';'')"

subsection \<open>In the words of the specification\<close>

text \<open>
  The specification gives the wire format as
  \<open>ignored;Time-<string>;Latitude-<float>;Longitude-<float>;Satellites-<int>;Acceleration:<float>,<float>,<float>\<close>:
  a field is \<open>Key-Value\<close> for the keys Time, Latitude, Longitude and Satellites, and
  \<open>Key:v1,v2,v3\<close> for the key Acceleration; the set of keys is closed. So the key of a
  field, read from the specification alone, is the key that the field starts with when the
  key's own separator follows it, and a field of no such form has an unrecognised key.
\<close>

definition specKey :: "string \<Rightarrow> key option" where
  "specKey field =
     (if HasPrefix field ''Time-'' then Some KTime
      else if HasPrefix field ''Latitude-'' then Some KLatitude
      else if HasPrefix field ''Longitude-'' then Some KLongitude
      else if HasPrefix field ''Satellites-'' then Some KSatellites
      else if HasPrefix field ''Acceleration:'' then Some KAcceleration
      else None)"

definition specRecognised :: "string \<Rightarrow> bool" where
  "specRecognised field = (specKey field \<noteq> None)"

text \<open>
  The failure conditions as the specification words them: a numeric field (Latitude,
  Longitude, Satellites) whose value does not parse, or the acceleration field
  \<open>Acceleration:v1,v2,v3\<close> whose value does not have exactly 3 comma-separated components
  that all parse; and, for the line, that it is empty after trimming, has fewer than 6
  fields, or holds such a field after the first.
\<close>

definition specFieldFails :: "'f strconv \<Rightarrow> string \<Rightarrow> bool" where
  "specFieldFails L field =
     ((HasPrefix field ''Latitude-'' \<and> \<not> parses (ParseFloat L) (TrimPrefix field ''Latitude-'')) \<or>
      (HasPrefix field ''Longitude-'' \<and> \<not> parses (ParseFloat L) (TrimPrefix field ''Longitude-'')) \<or>
      (HasPrefix field ''Satellites-'' \<and> \<not> parses (Atoi L) (TrimPrefix field ''Satellites-'')) \<or>
      (HasPrefix field ''Acceleration:'' \<and>
         \<not> (length (Split (TrimPrefix field ''Acceleration:'') CHR '','') = 3 \<and>
            list_all (parses (ParseFloat L)) (Split (TrimPrefix field ''Acceleration:'') CHR '',''))))"

definition specDecodeFails :: "'f strconv \<Rightarrow> string \<Rightarrow> bool" where
  "specDecodeFails L line =
     (let l = TrimSpace line; parts = Split l CHR '';'' in
      l = [] \<or> length parts < 6 \<or> list_ex (specFieldFails L) (drop 1 parts))"

subsection \<open>As ParsePacket dispatches\<close>

text \<open>
  The key of a field as the \<open>switch\<close> in ParsePacket assigns it: the case that the field
  takes, \<open>None\<close> when it takes none. The first four cases test the key with its hyphen; the
  fifth tests the bare word \<open>Acceleration\<close>, so every field that begins with that word is
  decoded as the acceleration field, whatever follows the word.
\<close>

definition fieldKey :: "string \<Rightarrow> key option" where
  "fieldKey field =
     (if HasPrefix field ''Time-'' then Some KTime
      else if HasPrefix field ''Latitude-'' then Some KLatitude
      else if HasPrefix field ''Longitude-'' then Some KLongitude
      else if HasPrefix field ''Satellites-'' then Some KSatellites
      else if HasPrefix field ''Acceleration'' then Some KAcceleration
      else None)"

definition recognisedByPrefix :: "string \<Rightarrow> bool" where
  "recognisedByPrefix field = (fieldKey field \<noteq> None)"

text \<open>
  The two readings give a field the same key unless it begins with \<open>Acceleration\<close> and
  something other than a colon follows the word.
\<close>

definition colonAfterKey :: "string \<Rightarrow> bool" where
  "colonAfterKey field = (HasPrefix field ''Acceleration'' \<longrightarrow> HasPrefix field ''Acceleration:'')"

text \<open>
  What makes a single field well-formed for the decoder, case by case. It is the condition
  under which one iteration of the field loop returns no error (lemma
  \<open>parseField_ok_iff\<close>).
\<close>

definition fieldOk :: "'f strconv \<Rightarrow> string \<Rightarrow> bool" where
  "fieldOk L field =
     (case fieldKey field of
        None \<Rightarrow> True
      | Some KTime \<Rightarrow> True
      | Some KLatitude \<Rightarrow> parses (ParseFloat L) (TrimPrefix field ''Latitude-'')
      | Some KLongitude \<Rightarrow> parses (ParseFloat L) (TrimPrefix field ''Longitude-'')
      | Some KSatellites \<Rightarrow> parses (Atoi L) (TrimPrefix field ''Satellites-'')
      | Some KAcceleration \<Rightarrow>
          length (Split field CHR '':'') = 2 \<and>
          length (Split (Split field CHR '':'' ! 1) CHR '','') = 3 \<and>
          list_all (parses (ParseFloat L)) (Split (Split field CHR '':'' ! 1) CHR '',''))"

text \<open>
  The failure conditions of the specification with the acceleration field read as the
  decoder reads it: any field that begins with \<open>Acceleration\<close>. Its components are the
  comma-separated parts of the text after its first colon (none when it has no colon), and
  it is malformed unless there are exactly three and each parses as a float.
\<close>

definition accelValue :: "string \<Rightarrow> string" where
  "accelValue field = drop 1 (dropWhile (\<lambda>c. c \<noteq> CHR '':'') field)"

definition accelComponents :: "string \<Rightarrow> string list" where
  "accelComponents field =
     (if CHR '':'' \<in> set field then Split (accelValue field) CHR '','' else [])"

definition prefixFieldFails :: "'f strconv \<Rightarrow> string \<Rightarrow> bool" where
  "prefixFieldFails L field =
     ((HasPrefix field ''Latitude-'' \<and> \<not> parses (ParseFloat L) (TrimPrefix field ''Latitude-'')) \<or>
      (HasPrefix field ''Longitude-'' \<and> \<not> parses (ParseFloat L) (TrimPrefix field ''Longitude-'')) \<or>
      (HasPrefix field ''Satellites-'' \<and> \<not> parses (Atoi L) (TrimPrefix field ''Satellites-'')) \<or>
      (HasPrefix field ''Acceleration'' \<and>
         \<not> (length (accelComponents field) = 3 \<and>
            list_all (parses (ParseFloat L)) (accelComponents field))))"

definition prefixDecodeFails :: "'f strconv \<Rightarrow> string \<Rightarrow> bool" where
  "prefixDecodeFails L line =
     (let l = TrimSpace line; parts = Split l CHR '';'' in
      l = [] \<or> length parts < 6 \<or> list_ex (prefixFieldFails L) (drop 1 parts))"

text \<open>
  A property of \<open>strconv.ParseFloat\<close> that the comparison needs: no accepted float syntax
  (decimal, hexadecimal, infinities, NaN) contains a colon.
\<close>

definition rejectsColon :: "'f strconv \<Rightarrow> bool" where
  "rejectsColon L = (\<forall>s. CHR '':'' \<in> set s \<longrightarrow> \<not> parses (ParseFloat L) s)"

text \<open>
  The last field to which the decoder assigns a given key, and the statement that a
  decoded packet holds, for every key, the value of the last field with that key (and the
  starting value when no field has it).
\<close>

definition lastWith :: "key \<Rightarrow> string list \<Rightarrow> string option" where
  "lastWith k fs =
     (let xs = filter (\<lambda>f. fieldKey f = Some k) fs in if xs = [] then None else Some (last xs))"

definition uniqueKeys :: "string list \<Rightarrow> bool" where
  "uniqueKeys fs =
     list_all (\<lambda>k. length (filter (\<lambda>f. fieldKey f = Some k) fs) \<le> 1)
       [KTime, KLatitude, KLongitude, KSatellites, KAcceleration]"

definition lastWins :: "'f strconv \<Rightarrow> string list \<Rightarrow> 'f Packet \<Rightarrow> 'f Packet \<Rightarrow> bool" where
  "lastWins L fs p0 p =
     (Time p = (case lastWith KTime fs of None \<Rightarrow> Time p0 | Some f \<Rightarrow> TrimPrefix f ''Time-'') \<and>
      (case lastWith KLatitude fs of
         None \<Rightarrow> Latitude p = Latitude p0
       | Some f \<Rightarrow> ParseFloat L (TrimPrefix f ''Latitude-'') = Inr (Latitude p)) \<and>
      (case lastWith KLongitude fs of
         None \<Rightarrow> Longitude p = Longitude p0
       | Some f \<Rightarrow> ParseFloat L (TrimPrefix f ''Longitude-'') = Inr (Longitude p)) \<and>
      (case lastWith KSatellites fs of
         None \<Rightarrow> Satellites p = Satellites p0
       | Some f \<Rightarrow> Atoi L (TrimPrefix f ''Satellites-'') = Inr (Satellites p)) \<and>
      (case lastWith KAcceleration fs of
         None \<Rightarrow> Acceleration p = Acceleration p0
       | Some f \<Rightarrow>
           map (ParseFloat L) (Split (Split f CHR '':'' ! 1) CHR '','') = map Inr (Acceleration p)))"

section \<open>The live buffer (main.go)\<close>

text \<open>
  A buffered Go channel: its capacity, fixed by \<open>make\<close>, and the items it holds, oldest
  first. A send in a \<open>select\<close> with a \<open>default\<close> case succeeds when there is room and
  otherwise leaves the channel as it is (\<open>None\<close>); a receive in such a \<open>select\<close> takes the
  oldest item, if any. A plain send \<open>out <- p\<close> completes when there is room, and blocks
  until a receiver makes room otherwise.
\<close>

record 'a chan =
  cap :: nat
  buf :: "'a list"

definition make_chan :: "nat \<Rightarrow> 'a chan" where
  "make_chan n = \<lparr>cap = n, buf = []\<rparr>"

definition trySend :: "'a chan \<Rightarrow> 'a \<Rightarrow> 'a chan option" where
  "trySend c x = (if length (buf c) < cap c then Some (c\<lparr>buf := buf c @ [x]\<rparr>) else None)"

definition tryRecv :: "'a chan \<Rightarrow> ('a \<times> 'a chan) option" where
  "tryRecv c = (case buf c of [] \<Rightarrow> None | x # rest \<Rightarrow> Some (x, c\<lparr>buf := rest\<rparr>))"

text \<open>\<open>packets := make(chan Packet, 128)\<close> in runApp.\<close>

definition packetsCapacity :: nat where
  "packetsCapacity = 128"

definition packetsChan :: "'a chan" where
  "packetsChan = make_chan packetsCapacity"

text \<open>
  The other end of the channel is the drain loop of runApp, which only receives. While the
  reader goroutine is between two of its channel operations the drain loop may take items;
  \<open>received k c\<close> is the channel after it took \<open>k\<close> of them (all of them when fewer are
  pending).
\<close>

definition received :: "nat \<Rightarrow> 'a chan \<Rightarrow> 'a chan" where
  "received k c = c\<lparr>buf := drop k (buf c)\<rparr>"

text \<open>
  The \<open>select\<close> statement of startSerialReader that hands a decoded packet to the channel:
  a non-blocking send; when it finds the channel full, a non-blocking receive that drops
  the oldest pending item, and then a plain send. \<open>k1\<close> and \<open>k2\<close> are the numbers of items
  the drain loop takes before the receive and before the last send (both 0 when it is
  idle). The result is \<open>None\<close> when the last send finds no room, that is, when the read loop
  blocks.
\<close>

definition enqueue :: "nat \<Rightarrow> nat \<Rightarrow> 'a chan \<Rightarrow> 'a \<Rightarrow> 'a chan option" where
  "enqueue k1 k2 out p =
     (case trySend out p of
        Some out' \<Rightarrow> Some out'
      | None \<Rightarrow>
          (let out1 = received k1 out;
               out2 = (case tryRecv out1 of Some (_, c) \<Rightarrow> c | None \<Rightarrow> out1);
               out3 = received k2 out2
           in trySend out3 p))"

text \<open>
  A history of the channel: the reader enqueues a packet, or the drain loop takes one
  (and finds nothing to take when the channel is empty).
\<close>

datatype 'a event = Offer 'a nat nat | Take

fun run :: "'a event list \<Rightarrow> 'a chan \<Rightarrow> 'a chan option" where
  "run [] c = Some c"
| "run (Offer p k1 k2 # es) c =
     (case enqueue k1 k2 c p of None \<Rightarrow> None | Some c' \<Rightarrow> run es c')"
| "run (Take # es) c =
     run es (case tryRecv c of Some (_, c') \<Rightarrow> c' | None \<Rightarrow> c)"

fun offered :: "'a event list \<Rightarrow> 'a list" where
  "offered [] = []"
| "offered (Offer p k1 k2 # es) = p # offered es"
| "offered (Take # es) = offered es"

section \<open>The drain loop of the frame handler (main.go)\<close>

text \<open>
  Formatting and conversion functions of the Go library, taken as parameters:
  \<open>FormatFloat x n\<close> is \<open>strconv.FormatFloat(x, 'f', n, 64)\<close>, \<open>FormatInt\<close> is the decimal
  form of an integer (\<open>strconv.FormatInt(n, 10)\<close> and \<open>strconv.Itoa\<close>), \<open>FormatTime\<close> is
  \<open>Time.Format("2006-01-02 15:04:05")\<close>, \<open>Sprintf_f x n\<close> and \<open>Sprintf_d\<close> are the verbs
  \<open>%.nf\<close> and \<open>%d\<close> of \<open>fmt.Sprintf\<close>, \<open>Float32\<close> is the conversion \<open>float32(x)\<close>, and
  \<open>MarshalIndent\<close> is the indented JSON object that \<open>encoding/json\<close> writes for one
  \<open>StoredPacket\<close> inside an array. \<open>'f\<close> stands for \<open>float64\<close>, \<open>'g\<close> for \<open>float32\<close>
  and \<open>'r\<close> for the type of the values that are marshalled.
\<close>

record ('f, 'g, 'r) golib =
  FormatFloat :: "'f \<Rightarrow> nat \<Rightarrow> string"
  FormatInt :: "int \<Rightarrow> string"
  FormatTime :: "int \<Rightarrow> string"
  Sprintf_f :: "'f \<Rightarrow> nat \<Rightarrow> string"
  Sprintf_d :: "int \<Rightarrow> string"
  Float32 :: "'f \<Rightarrow> 'g"
  MarshalIndent :: "'r \<Rightarrow> string"

text \<open>
  The part of \<open>UIState\<close> that the drain loop writes; the widgets and the database fields
  are left out.
\<close>

record ('f, 'g) UIState =
  LastPacket :: "'f Packet"
  Series :: "'g list"
  LogLines :: "string list"

definition seriesCapacity :: nat where
  "seriesCapacity = 300"

definition logCapacity :: nat where
  "logCapacity = 200"

text \<open>
  \<open>if len(s) > capacity { s = s[len(s)-capacity:] }\<close>, the truncation that follows every
  append to \<open>Series\<close> and \<open>LogLines\<close>.
\<close>

definition truncateTo :: "nat \<Rightarrow> 'a list \<Rightarrow> 'a list" where
  "truncateTo capacity s = (if length s > capacity then drop (length s - capacity) s else s)"

text \<open>
  \<open>fmt.Sprintf("%s Lat:%.6f Lon:%.6f Sat:%d AccZ:%.2f", ...)\<close>. \<open>Acceleration\<close> is an array
  of length 3, so the index 2 is in range.
\<close>

definition logLine :: "('f, 'g, 'r) golib \<Rightarrow> 'f Packet \<Rightarrow> string" where
  "logLine G p =
     Time p @ '' Lat:'' @ Sprintf_f G (Latitude p) 6 @ '' Lon:'' @ Sprintf_f G (Longitude p) 6 @
     '' Sat:'' @ Sprintf_d G (Satellites p) @ '' AccZ:'' @ Sprintf_f G (Acceleration p ! 2) 2"

text \<open>The body of \<open>case p := <-packets\<close>.\<close>

definition drainOne :: "('f, 'g, 'r) golib \<Rightarrow> 'f Packet \<Rightarrow> ('f, 'g) UIState \<Rightarrow> ('f, 'g) UIState" where
  "drainOne G p state =
     (let state1 = state\<lparr>LastPacket := p\<rparr>;
          v = Float32 G (Acceleration p ! 2);
          state2 = state1\<lparr>Series := truncateTo seriesCapacity (Series state1 @ [v])\<rparr>
      in state2\<lparr>LogLines := truncateTo logCapacity (LogLines state2 @ [logLine G p])\<rparr>)"

text \<open>
  The loop labelled \<open>drain\<close>: it receives until the channel is empty. The loop returns the
  state and the emptied channel.
\<close>

function drain :: "('f, 'g, 'r) golib \<Rightarrow> 'f Packet chan \<Rightarrow> ('f, 'g) UIState \<Rightarrow>
    ('f, 'g) UIState \<times> 'f Packet chan" where
  "drain G c state =
     (case tryRecv c of
        None \<Rightarrow> (state, c)
      | Some (p, c') \<Rightarrow> drain G c' (drainOne G p state))"
  by pat_completeness auto
termination
  by (relation "measure (\<lambda>(G, c, state). length (buf c))")
     (auto simp: tryRecv_def split: list.splits)

text \<open>The state with which runApp starts: \<open>var state UIState\<close>.\<close>

definition zeroUIState :: "('f::zero, 'g) UIState" where
  "zeroUIState = \<lparr>LastPacket = zeroPacket, Series = [], LogLines = []\<rparr>"

text \<open>The last \<open>n\<close> elements of a list, in their order.\<close>

definition lastN :: "nat \<Rightarrow> 'a list \<Rightarrow> 'a list" where
  "lastN n xs = drop (length xs - n) xs"

text \<open>
  Everything else in the frame handler that writes \<open>Series\<close> or \<open>LogLines\<close>: each button
  handler appends one or more lines to \<open>LogLines\<close> and then truncates it, and the Clear
  button sets both to \<open>nil\<close>. A session is a sequence of such actions and of drain steps,
  each drain step with the channel as it finds it.
\<close>

datatype 'f action = Drained "'f Packet chan" | Logged "string list" | Cleared

fun act :: "('f, 'g, 'r) golib \<Rightarrow> 'f action \<Rightarrow> ('f, 'g) UIState \<Rightarrow> ('f, 'g) UIState" where
  "act G (Drained c) state = fst (drain G c state)"
| "act G (Logged ls) state = state\<lparr>LogLines := truncateTo logCapacity (LogLines state @ ls)\<rparr>"
| "act G Cleared state = state\<lparr>LogLines := [], Series := []\<rparr>"

fun session :: "('f, 'g, 'r) golib \<Rightarrow> 'f action list \<Rightarrow> ('f, 'g) UIState \<Rightarrow> ('f, 'g) UIState" where
  "session G [] state = state"
| "session G (a # as) state = session G as (act G a state)"

section \<open>The persistence store\<close>

text \<open>
  \<open>StoredPacket\<close>: a row of the table \<open>packets\<close>. The fields that \<open>Packet\<close> also has carry
  the prefix \<open>Stored\<close>; the two timestamps are counted in seconds, the resolution of the
  \<open>TIMESTAMP\<close> columns.
\<close>

record 'f StoredPacket =
  ID :: int
  StoredTime :: string
  StoredLatitude :: 'f
  StoredLongitude :: 'f
  StoredSatellites :: int
  AccelerationX :: 'f
  AccelerationY :: 'f
  AccelerationZ :: 'f
  CreatedAt :: int
  UpdatedAt :: int

text \<open>
  A Go slice is \<open>nil\<close> or holds elements: \<open>var packets []StoredPacket\<close> declares a nil
  slice, and \<open>append\<close> to any slice gives one that is not nil.
\<close>

datatype 'a slice = NilSlice | Slice "'a list"

fun elems :: "'a slice \<Rightarrow> 'a list" where
  "elems NilSlice = []"
| "elems (Slice xs) = xs"

fun append1 :: "'a slice \<Rightarrow> 'a \<Rightarrow> 'a slice" where
  "append1 NilSlice x = Slice [x]"
| "append1 (Slice xs) x = Slice (xs @ [x])"

text \<open>
  The statements that the store sends to MySQL select from \<open>packets\<close> with
  \<open>ORDER BY created_at ASC\<close> or \<open>DESC\<close> and an optional \<open>LIMIT\<close>, count the rows, or delete
  them all. \<open>database/sql\<close> answers a query with an error or with a row set: the rows that
  \<open>rows.Next\<close> delivers, each with the outcome of its \<open>Scan\<close>, and the error that
  \<open>rows.Err\<close> reports once the iteration has stopped.
\<close>

datatype direction = ASC | DESC

record query =
  orderBy :: direction
  limitRows :: "nat option"

record 'f Rows =
  scans :: "(error + 'f StoredPacket) list"
  rowsErr :: "error option"

text \<open>
  The database server and its driver are not part of the repository; they are a parameter.
  Each function takes the current rows of the table \<open>packets\<close>.
\<close>

record 'f mysql =
  Query :: "query \<Rightarrow> 'f StoredPacket list \<Rightarrow> error + 'f Rows"
  QueryCount :: "'f StoredPacket list \<Rightarrow> error + int"
  ExecDelete :: "'f StoredPacket list \<Rightarrow> error + 'f StoredPacket list"

text \<open>The state behind a \<open>Database\<close> handle: the rows of the table \<open>packets\<close>.\<close>

record 'f Database =
  packetsTable :: "'f StoredPacket list"

text \<open>
  The query text of GetPackets and GetAccelerationSeries: the fixed \<open>ORDER BY\<close>, and
  \<open>LIMIT limit\<close> appended when \<open>limit > 0\<close>.
\<close>

definition selectQuery :: "direction \<Rightarrow> int \<Rightarrow> query" where
  "selectQuery dir limit = \<lparr>orderBy = dir, limitRows = (if limit > 0 then Some (nat limit) else None)\<rparr>"

text \<open>The loop \<open>for rows.Next()\<close> of GetPackets, with the packets appended so far.\<close>

fun scanPackets :: "(error + 'f StoredPacket) list \<Rightarrow> 'f StoredPacket slice \<Rightarrow>
    error + 'f StoredPacket slice" where
  "scanPackets [] packets = Inr packets"
| "scanPackets (Inl err # rest) packets = Inl (WrapError ''failed to scan packet'' err)"
| "scanPackets (Inr p # rest) packets = scanPackets rest (append1 packets p)"

definition GetPackets :: "'f mysql \<Rightarrow> 'f Database \<Rightarrow> int \<Rightarrow> 'f StoredPacket slice \<times> error option" where
  "GetPackets M d limit =
     (case Query M (selectQuery DESC limit) (packetsTable d) of
        Inl err \<Rightarrow> (NilSlice, Some (WrapError ''failed to query packets'' err))
      | Inr rows \<Rightarrow>
          (case scanPackets (scans rows) NilSlice of
             Inl err \<Rightarrow> (NilSlice, Some err)
           | Inr packets \<Rightarrow>
               (case rowsErr rows of
                  Some err \<Rightarrow> (NilSlice, Some (WrapError ''error iterating packets'' err))
                | None \<Rightarrow> (packets, None))))"

text \<open>
  \<open>QueryRow(query).Scan(...)\<close>: the error of the query, or of the iteration when it
  delivers no row, \<open>sql.ErrNoRows\<close> when there is no row, and otherwise the outcome of
  scanning the first row.
\<close>

definition QueryRowScan :: "'f mysql \<Rightarrow> query \<Rightarrow> 'f StoredPacket list \<Rightarrow> error + 'f StoredPacket" where
  "QueryRowScan M q t =
     (case Query M q t of
        Inl err \<Rightarrow> Inl err
      | Inr rows \<Rightarrow>
          (case scans rows of
             [] \<Rightarrow> (case rowsErr rows of Some err \<Rightarrow> Inl err | None \<Rightarrow> Inl ErrNoRows)
           | s # rest \<Rightarrow> s))"

text \<open>GetLatestPacket returns \<open>(*StoredPacket, error)\<close>; \<open>None\<close> is \<open>nil\<close> in both places.\<close>

definition GetLatestPacket :: "'f mysql \<Rightarrow> 'f Database \<Rightarrow> 'f StoredPacket option \<times> error option" where
  "GetLatestPacket M d =
     (case QueryRowScan M \<lparr>orderBy = DESC, limitRows = Some 1\<rparr> (packetsTable d) of
        Inl err \<Rightarrow>
          if err = ErrNoRows then (None, None)
          else (None, Some (WrapError ''failed to get latest packet'' err))
      | Inr p \<Rightarrow> (Some p, None))"

definition GetPacketCount :: "'f mysql \<Rightarrow> 'f Database \<Rightarrow> int \<times> error option" where
  "GetPacketCount M d =
     (case QueryCount M (packetsTable d) of
        Inl err \<Rightarrow> (0, Some (WrapError ''failed to get packet count'' err))
      | Inr n \<Rightarrow> (n, None))"

text \<open>DeleteAllPackets returns the error; the model also returns the store it leaves.\<close>

definition DeleteAllPackets :: "'f mysql \<Rightarrow> 'f Database \<Rightarrow> 'f Database \<times> error option" where
  "DeleteAllPackets M d =
     (case ExecDelete M (packetsTable d) of
        Inl err \<Rightarrow> (d, Some (WrapError ''failed to delete all packets'' err))
      | Inr t \<Rightarrow> (d\<lparr>packetsTable := t\<rparr>, None))"

text \<open>
  The loop of GetAccelerationSeries. Its query selects the column \<open>acceleration_z\<close> only;
  a delivered row is read here through that column.
\<close>

fun scanSeries :: "('f, 'g, 'r) golib \<Rightarrow> (error + 'f StoredPacket) list \<Rightarrow> 'g slice \<Rightarrow>
    error + 'g slice" where
  "scanSeries G [] series = Inr series"
| "scanSeries G (Inl err # rest) series = Inl (WrapError ''failed to scan acceleration value'' err)"
| "scanSeries G (Inr r # rest) series =
     scanSeries G rest (append1 series (Float32 G (AccelerationZ r)))"

definition GetAccelerationSeries :: "'f mysql \<Rightarrow> ('f, 'g, 'r) golib \<Rightarrow> 'f Database \<Rightarrow> int \<Rightarrow>
    'g slice \<times> error option" where
  "GetAccelerationSeries M G d limit =
     (case Query M (selectQuery ASC limit) (packetsTable d) of
        Inl err \<Rightarrow> (NilSlice, Some (WrapError ''failed to query acceleration series'' err))
      | Inr rows \<Rightarrow>
          (case scanSeries G (scans rows) NilSlice of
             Inl err \<Rightarrow> (NilSlice, Some err)
           | Inr series \<Rightarrow>
               (case rowsErr rows of
                  Some err \<Rightarrow> (NilSlice, Some (WrapError ''error iterating acceleration values'' err))
                | None \<Rightarrow> (series, None))))"

section \<open>The meaning of the SQL statements\<close>

text \<open>
  \<open>ORDER BY created_at\<close> arranges the rows so that creation times ascend (\<open>ASC\<close>) or
  descend (\<open>DESC\<close>); SQL leaves the order of rows with equal creation time open. An answer
  to a query is such an arrangement of the table, cut to its first \<open>n\<close> rows under
  \<open>LIMIT n\<close>.
\<close>

definition before :: "direction \<Rightarrow> 'f StoredPacket \<Rightarrow> 'f StoredPacket \<Rightarrow> bool" where
  "before dir a b = (case dir of ASC \<Rightarrow> CreatedAt a \<le> CreatedAt b | DESC \<Rightarrow> CreatedAt b \<le> CreatedAt a)"

definition answers :: "query \<Rightarrow> 'f StoredPacket list \<Rightarrow> 'f StoredPacket list \<Rightarrow> bool" where
  "answers q t rs =
     (\<exists>arranged. mset arranged = mset t \<and> sorted_wrt (before (orderBy q)) arranged \<and>
        rs = (case limitRows q of None \<Rightarrow> arranged | Some n \<Rightarrow> take n arranged))"

text \<open>
  What the store relies on from the server: a row set delivers the rows of an answer, in
  order, all of them unless the iteration reports an error, and every row that scans
  without error is the row of the answer; a count that succeeds is the number of rows; a
  delete that succeeds leaves no row.
\<close>

definition delivers :: "'f Rows \<Rightarrow> 'f StoredPacket list \<Rightarrow> bool" where
  "delivers rows rs =
     (length (scans rows) \<le> length rs \<and>
      (rowsErr rows = None \<longrightarrow> length (scans rows) = length rs) \<and>
      (\<forall>i < length (scans rows). \<forall>p. scans rows ! i = Inr p \<longrightarrow> p = rs ! i))"

definition sqlContract :: "'f mysql \<Rightarrow> bool" where
  "sqlContract M =
     ((\<forall>q t rows. Query M q t = Inr rows \<longrightarrow> (\<exists>rs. answers q t rs \<and> delivers rows rs)) \<and>
      (\<forall>t n. QueryCount M t = Inr n \<longrightarrow> n = int (length t)) \<and>
      (\<forall>t t'. ExecDelete M t = Inr t' \<longrightarrow> t' = []))"

section \<open>The export engine\<close>

text \<open>
  The file system is a parameter: \<open>createErr\<close> is the error of \<open>os.Create(filename)\<close>,
  \<open>writeErr n\<close> the error of the \<open>n\<close>-th write call (counted from 0), \<open>None\<close> for \<open>nil\<close>, and
  \<open>flushErr\<close> the error of the deferred \<open>writer.Flush()\<close> of the CSV export, which the
  code does not look at; \<open>flushed\<close> is then the number of records that reached the file.
  An export returns its error and the content of the file afterwards, \<open>None\<close> when the file
  was not created. A CSV file is given by the records passed to \<open>csv.Writer.Write\<close>, the
  quoting of fields being left to the library.
\<close>

record files =
  createErr :: "string \<Rightarrow> error option"
  writeErr :: "nat \<Rightarrow> error option"
  flushErr :: "error option"
  flushed :: nat

text \<open>The deferred \<open>writer.Flush()\<close>: the buffered records reach the file, or some of them.\<close>

definition Flush :: "files \<Rightarrow> string list list \<Rightarrow> string list list" where
  "Flush fs out = (case flushErr fs of None \<Rightarrow> out | Some err \<Rightarrow> take (flushed fs) out)"

definition csvHeader :: "string list" where
  "csvHeader =
     [''ID'', ''Time'', ''Latitude'', ''Longitude'', ''Satellites'',
      ''AccelerationX'', ''AccelerationY'', ''AccelerationZ'', ''CreatedAt'', ''UpdatedAt'']"

definition csvRow :: "('f, 'g, 'r) golib \<Rightarrow> 'f StoredPacket \<Rightarrow> string list" where
  "csvRow G p =
     [FormatInt G (ID p),
      StoredTime p,
      FormatFloat G (StoredLatitude p) 6,
      FormatFloat G (StoredLongitude p) 6,
      FormatInt G (StoredSatellites p),
      FormatFloat G (AccelerationX p) 3,
      FormatFloat G (AccelerationY p) 3,
      FormatFloat G (AccelerationZ p) 3,
      FormatTime G (CreatedAt p),
      FormatTime G (UpdatedAt p)]"

text \<open>The loop \<open>for _, p := range packets\<close>; \<open>n\<close> numbers the next write.\<close>

fun writeRows :: "('f, 'g, 'r) golib \<Rightarrow> files \<Rightarrow> nat \<Rightarrow> 'f StoredPacket list \<Rightarrow> string list list \<Rightarrow>
    error option \<times> string list list" where
  "writeRows G fs n [] out = (None, out)"
| "writeRows G fs n (p # rest) out =
     (case writeErr fs n of
        Some err \<Rightarrow> (Some (WrapError ''failed to write row'' err), out)
      | None \<Rightarrow> writeRows G fs (Suc n) rest (out @ [csvRow G p]))"

definition SavePacketsToCSV :: "'f mysql \<Rightarrow> ('f, 'g, 'r) golib \<Rightarrow> files \<Rightarrow> 'f Database \<Rightarrow> string \<Rightarrow> int \<Rightarrow>
    error option \<times> string list list option" where
  "SavePacketsToCSV M G fs d filename limit =
     (case GetPackets M d limit of
        (packets, Some err) \<Rightarrow> (Some (WrapError ''failed to get packets'' err), None)
      | (packets, None) \<Rightarrow>
          (case createErr fs filename of
             Some err \<Rightarrow> (Some (WrapError ''failed to create file'' err), None)
           | None \<Rightarrow>
               (case writeErr fs 0 of
                  Some err \<Rightarrow> (Some (WrapError ''failed to write header'' err), Some (Flush fs []))
                | None \<Rightarrow>
                    (case writeRows G fs 1 (elems packets) [csvHeader] of
                       (err, out) \<Rightarrow> (err, Some (Flush fs out))))))"

text \<open>
  \<open>json.Encoder.Encode\<close> with \<open>SetIndent("", "  ")\<close> applied to a slice. Package
  \<open>encoding/json\<close> documents that slice values encode as JSON arrays, except that a nil
  slice encodes as the \<open>null\<close> JSON value; an empty array is \<open>[]\<close>, the elements of another
  one stand on lines of their own, indented and separated by commas; \<open>Encode\<close> ends its
  output with a newline.
\<close>

fun joinLines :: "string list \<Rightarrow> string" where
  "joinLines [] = []"
| "joinLines [x] = x"
| "joinLines (x # y # rest) = x @ [CHR '','', CHR 0x0A] @ joinLines (y # rest)"

fun encodeSlice :: "('f, 'g, 'r) golib \<Rightarrow> 'r slice \<Rightarrow> string" where
  "encodeSlice G NilSlice = ''null''"
| "encodeSlice G (Slice []) = ''[]''"
| "encodeSlice G (Slice (x # xs)) =
     ''['' @ [CHR 0x0A] @ joinLines (map (\<lambda>p. ''  '' @ MarshalIndent G p) (x # xs)) @ [CHR 0x0A] @ '']''"

definition Encode :: "('f, 'g, 'r) golib \<Rightarrow> 'r slice \<Rightarrow> string" where
  "Encode G v = encodeSlice G v @ [CHR 0x0A]"

definition SavePacketsToJSON :: "'f mysql \<Rightarrow> ('f, 'g, 'f StoredPacket) golib \<Rightarrow> files \<Rightarrow> 'f Database \<Rightarrow>
    string \<Rightarrow> int \<Rightarrow> error option \<times> string option" where
  "SavePacketsToJSON M G fs d filename limit =
     (case GetPackets M d limit of
        (packets, Some err) \<Rightarrow> (Some (WrapError ''failed to get packets'' err), None)
      | (packets, None) \<Rightarrow>
          (case createErr fs filename of
             Some err \<Rightarrow> (Some (WrapError ''failed to create file'' err), None)
           | None \<Rightarrow>
               (case writeErr fs 0 of
                  Some err \<Rightarrow> (Some (WrapError ''failed to encode JSON'' err), Some [])
                | None \<Rightarrow> (None, Some (Encode G packets)))))"

section \<open>A reference instance of the server, the library and the file system\<close>

text \<open>
  A server that never fails and breaks ties by a stable sort; decimal printing of
  integers and of rationals rounded half to even at the given precision; times printed as
  their number of seconds; a record printed as a JSON object with its identifier; a file
  system on which every operation succeeds. The theorems hold for every instance that
  meets their hypotheses; these run the model on concrete data.
\<close>

definition refQuery :: "query \<Rightarrow> 'f StoredPacket list \<Rightarrow> error + 'f Rows" where
  "refQuery q t =
     (let arranged = (case orderBy q of ASC \<Rightarrow> sort_key CreatedAt t | DESC \<Rightarrow> rev (sort_key CreatedAt t))
      in Inr \<lparr>scans = map Inr (case limitRows q of None \<Rightarrow> arranged | Some n \<Rightarrow> take n arranged),
              rowsErr = None\<rparr>)"

definition refMysql :: "'f mysql" where
  "refMysql = \<lparr>Query = refQuery, QueryCount = (\<lambda>t. Inr (int (length t))), ExecDelete = (\<lambda>t. Inr [])\<rparr>"

definition digitChar :: "int \<Rightarrow> char" where
  "digitChar d = char_of (48 + d)"

fun showDigits :: "nat \<Rightarrow> int \<Rightarrow> string" where
  "showDigits 0 n = []"
| "showDigits (Suc k) n = showDigits k (n div 10) @ [digitChar (n mod 10)]"

function showNat :: "int \<Rightarrow> string" where
  "showNat n = (if n < 10 then [digitChar n] else showNat (n div 10) @ [digitChar (n mod 10)])"
  by pat_completeness auto
termination
  by (relation "measure nat") auto

definition showInt :: "int \<Rightarrow> string" where
  "showInt i = (if i < 0 then CHR ''-'' # showNat (- i) else showNat i)"

definition roundHalfEven :: "rat \<Rightarrow> int" where
  "roundHalfEven x =
     (let q = \<lfloor>x\<rfloor>; r = x - of_int q
      in if r > 1 / 2 \<or> (r = 1 / 2 \<and> odd q) then q + 1 else q)"

definition showFixed :: "rat \<Rightarrow> nat \<Rightarrow> string" where
  "showFixed x prec =
     (let m = roundHalfEven (\<bar>x\<bar> * 10 ^ prec);
          whole = showNat (m div 10 ^ prec);
          frac = (if prec = 0 then [] else CHR ''.'' # showDigits prec (m mod 10 ^ prec))
      in (if x < 0 then ''-'' else []) @ whole @ frac)"

definition refGolib :: "(rat, rat, rat StoredPacket) golib" where
  "refGolib =
     \<lparr>FormatFloat = showFixed, FormatInt = showInt, FormatTime = showInt,
      Sprintf_f = showFixed, Sprintf_d = showInt, Float32 = (\<lambda>x. x),
      MarshalIndent = (\<lambda>p. ''{'' @ [CHR 0x22] @ ''id'' @ [CHR 0x22] @ '': '' @ showInt (ID p) @ ''}'')\<rparr>"

definition refFiles :: files where
  "refFiles = \<lparr>createErr = (\<lambda>name. None), writeErr = (\<lambda>n. None), flushErr = None, flushed = 0\<rparr>"

text \<open>A sample row: the packet of the specification's example line, with a given identifier,
  z-axis acceleration and creation time.\<close>

definition sampleRow :: "int \<Rightarrow> rat \<Rightarrow> int \<Rightarrow> rat StoredPacket" where
  "sampleRow i z t =
     \<lparr>ID = i, StoredTime = ''12:00:00'', StoredLatitude = 541 / 10, StoredLongitude = 126 / 5,
      StoredSatellites = 9, AccelerationX = 1 / 10, AccelerationY = - (1 / 5), AccelerationZ = z,
      CreatedAt = t, UpdatedAt = t\<rparr>"

section \<open>Facts about the string functions\<close>

declare TrimLeft.simps [simp del] TrimRight.simps [simp del]

lemma Split_not_Nil: "Split s c \<noteq> []"
  by (induction s) (auto split: list.splits)

lemma length_Split: "length (Split s c) = Suc (count_list s c)"
  by (induction s) (auto split: list.splits simp: Split_not_Nil)

lemma Split_no_sep: "c \<notin> set s \<Longrightarrow> Split s c = [s]"
  by (induction s) auto

lemma Split_Cons_eq:
  "Split s c = takeWhile (\<lambda>x. x \<noteq> c) s #
     (if c \<in> set s then Split (drop 1 (dropWhile (\<lambda>x. x \<noteq> c) s)) c else [])"
  by (induction s) (auto split: list.splits simp: Split_not_Nil)

lemma Split_covers: "x \<in> set s \<Longrightarrow> x \<noteq> c \<Longrightarrow> \<exists>p \<in> set (Split s c). x \<in> set p"
  by (induction s) (auto split: list.splits simp: Split_not_Nil)

lemma TrimLeft_decomp: "\<exists>pre. s = pre @ TrimLeft s \<and> set pre \<subseteq> set (concat spaceEncodings)"
proof (induction s rule: TrimLeft.induct)
  case (1 s)
  show ?case
  proof (cases "leadingSpace s = 0")
    case True
    then show ?thesis by (simp add: TrimLeft.simps)
  next
    case False
    then obtain w where w: "find (HasPrefix s) spaceEncodings = Some w" "leadingSpace s = length w"
      by (auto simp: leadingSpace_def split: option.splits)
    then have "HasPrefix s w" "w \<in> set spaceEncodings"
      by (auto simp: find_Some_iff)
    then have sw: "s = w @ drop (length w) s" "set w \<subseteq> set (concat spaceEncodings)"
      unfolding HasPrefix_def by (metis append_take_drop_id, auto)
    from 1[OF False] obtain pre where
      pre: "drop (leadingSpace s) s = pre @ TrimLeft (drop (leadingSpace s) s)" "set pre \<subseteq> set (concat spaceEncodings)"
      by blast
    have "TrimLeft s = TrimLeft (drop (leadingSpace s) s)"
      using False by (subst TrimLeft.simps) simp
    then have "s = (w @ pre) @ TrimLeft s"
      using sw(1) pre(1) w(2) by (metis append.assoc)
    moreover have "set (w @ pre) \<subseteq> set (concat spaceEncodings)" using sw(2) pre(2) by simp
    ultimately show ?thesis by blast
  qed
qed

lemma TrimRight_decomp: "\<exists>post. s = TrimRight s @ post \<and> set post \<subseteq> set (concat spaceEncodings)"
proof (induction s rule: TrimRight.induct)
  case (1 s)
  show ?case
  proof (cases "trailingSpace s = 0")
    case True
    then show ?thesis by (simp add: TrimRight.simps)
  next
    case False
    then obtain w where w: "find (HasSuffix s) spaceEncodings = Some w" "trailingSpace s = length w"
      by (auto simp: trailingSpace_def split: option.splits)
    then have "HasSuffix s w" "w \<in> set spaceEncodings"
      by (auto simp: find_Some_iff)
    then have sw: "s = take (length s - length w) s @ w" "set w \<subseteq> set (concat spaceEncodings)"
      unfolding HasSuffix_def by (metis append_take_drop_id, auto)
    from 1[OF False] obtain post where
      post: "take (length s - trailingSpace s) s = TrimRight (take (length s - trailingSpace s) s) @ post"
        "set post \<subseteq> set (concat spaceEncodings)"
      by blast
    have "TrimRight s = TrimRight (take (length s - trailingSpace s) s)"
      using False by (subst TrimRight.simps) simp
    then have "s = TrimRight s @ (post @ w)"
      using sw(1) post(1) w(2) by (metis append.assoc)
    moreover have "set (post @ w) \<subseteq> set (concat spaceEncodings)" using sw(2) post(2) by simp
    ultimately show ?thesis by blast
  qed
qed

lemma semicolon_not_space: "CHR '';'' \<notin> set (concat spaceEncodings)"
  by (simp add: spaceEncodings_def)

lemma count_list_append: "count_list (xs @ ys) c = count_list xs c + count_list ys c"
  by (induction xs) auto

lemma count_list_0: "c \<notin> set xs \<Longrightarrow> count_list xs c = 0"
  by (induction xs) auto

lemma TrimSpace_count_semicolon:
  "count_list (TrimSpace s) CHR '';'' = count_list s CHR '';''"
proof -
  obtain pre where pre: "s = pre @ TrimLeft s" "set pre \<subseteq> set (concat spaceEncodings)"
    using TrimLeft_decomp by blast
  obtain post where post: "TrimLeft s = TrimSpace s @ post" "set post \<subseteq> set (concat spaceEncodings)"
    using TrimRight_decomp[of "TrimLeft s"] by (auto simp: TrimSpace_def)
  have "CHR '';'' \<notin> set pre" "CHR '';'' \<notin> set post"
    using pre(2) post(2) semicolon_not_space by blast+
  then have "count_list pre CHR '';'' = 0" "count_list post CHR '';'' = 0"
    by (simp_all add: count_list_0)
  moreover have "s = pre @ TrimSpace s @ post" using pre(1) post(1) by simp
  ultimately show ?thesis
    by (metis add.right_neutral add_0 count_list_append)
qed

lemma TrimSpace_length_Split:
  "length (Split (TrimSpace s) CHR '';'') = length (Split s CHR '';'')"
  by (simp add: length_Split TrimSpace_count_semicolon)

section \<open>Facts about the decoder\<close>

lemma accelLoop_ok_iff:
  "(snd (accelLoop L nums is p) = None) = list_all (\<lambda>i. parses (ParseFloat L) (nums ! i)) is"
  by (induction "is" arbitrary: p) (auto simp: parses_def split: sum.splits)

lemma accelLoop_other:
  "Time (fst (accelLoop L nums is p)) = Time p \<and>
   Latitude (fst (accelLoop L nums is p)) = Latitude p \<and>
   Longitude (fst (accelLoop L nums is p)) = Longitude p \<and>
   Satellites (fst (accelLoop L nums is p)) = Satellites p \<and>
   length (Acceleration (fst (accelLoop L nums is p))) = length (Acceleration p)"
  by (induction "is" arbitrary: p) (auto split: sum.splits)

lemma list3: "length xs = 3 \<Longrightarrow> \<exists>a b c. xs = [a, b, c]"
  by (cases xs; cases "tl xs"; cases "tl (tl xs)") auto

lemma accelLoop_3_success:
  assumes "length nums = 3" "length (Acceleration p) = 3"
    and "accelLoop L nums [0, 1, 2] p = (p', None)"
  shows "map (ParseFloat L) nums = map Inr (Acceleration p')"
proof -
  obtain a b c where n: "nums = [a, b, c]" using list3[OF assms(1)] by blast
  obtain x y z where ac: "Acceleration p = [x, y, z]" using list3[OF assms(2)] by blast
  show ?thesis using assms(3) unfolding n
    by (auto simp: ac split: sum.splits)
qed

lemma parseField_Time:
  "fieldKey field = Some KTime \<Longrightarrow>
   parseField L field p = (p\<lparr>Time := TrimPrefix field ''Time-''\<rparr>, None)"
  by (simp add: parseField_def fieldKey_def split: if_splits)

lemma parseField_Latitude:
  "fieldKey field = Some KLatitude \<Longrightarrow>
   parseField L field p =
     (case ParseFloat L (TrimPrefix field ''Latitude-'') of
        Inl err \<Rightarrow> (p, Some err) | Inr f \<Rightarrow> (p\<lparr>Latitude := f\<rparr>, None))"
  by (simp add: parseField_def fieldKey_def split: if_splits)

lemma parseField_Longitude:
  "fieldKey field = Some KLongitude \<Longrightarrow>
   parseField L field p =
     (case ParseFloat L (TrimPrefix field ''Longitude-'') of
        Inl err \<Rightarrow> (p, Some err) | Inr f \<Rightarrow> (p\<lparr>Longitude := f\<rparr>, None))"
  by (simp add: parseField_def fieldKey_def split: if_splits)

lemma parseField_Satellites:
  "fieldKey field = Some KSatellites \<Longrightarrow>
   parseField L field p =
     (case Atoi L (TrimPrefix field ''Satellites-'') of
        Inl err \<Rightarrow> (p, Some err) | Inr n \<Rightarrow> (p\<lparr>Satellites := n\<rparr>, None))"
  by (simp add: parseField_def fieldKey_def split: if_splits)

lemma parseField_Acceleration:
  "fieldKey field = Some KAcceleration \<Longrightarrow>
   parseField L field p =
     (if length (Split field CHR '':'') \<noteq> 2 then (p, Some (ErrorString ''bad accel field''))
      else if length (Split (Split field CHR '':'' ! 1) CHR '','') \<noteq> 3
        then (p, Some (ErrorString ''bad accel values''))
      else accelLoop L (Split (Split field CHR '':'' ! 1) CHR '','') [0, 1, 2] p)"
  by (simp add: parseField_def fieldKey_def Let_def split: if_splits)

lemma accelLoop_3_ok_iff:
  assumes "length nums = 3"
  shows "(snd (accelLoop L nums [0, 1, 2] p) = None) = list_all (parses (ParseFloat L)) nums"
proof -
  obtain a b c where "nums = [a, b, c]" using list3[OF assms] by blast
  then show ?thesis by (simp add: accelLoop_ok_iff del: accelLoop.simps)
qed

lemma parseField_ok_iff: "(snd (parseField L field p) = None) = fieldOk L field"
proof (cases "fieldKey field")
  case None
  then show ?thesis by (simp add: fieldOk_def parseField_def fieldKey_def split: if_splits)
next
  case (Some k)
  show ?thesis
  proof (cases k)
    case KTime
    then show ?thesis using Some by (simp add: parseField_Time fieldOk_def)
  next
    case KLatitude
    then show ?thesis using Some
      by (simp add: parseField_Latitude fieldOk_def parses_def split: sum.splits)
  next
    case KLongitude
    then show ?thesis using Some
      by (simp add: parseField_Longitude fieldOk_def parses_def split: sum.splits)
  next
    case KSatellites
    then show ?thesis using Some
      by (simp add: parseField_Satellites fieldOk_def parses_def split: sum.splits)
  next
    case KAcceleration
    with Some have key: "fieldKey field = Some KAcceleration" by simp
    let ?nums = "Split (Split field CHR '':'' ! 1) CHR '',''"
    have ok: "fieldOk L field =
        (length (Split field CHR '':'') = 2 \<and> length ?nums = 3 \<and>
         list_all (parses (ParseFloat L)) ?nums)"
      by (simp add: fieldOk_def key)
    show ?thesis
    proof (cases "length (Split field CHR '':'') = 2 \<and> length ?nums = 3")
      case True
      then have "parseField L field p = accelLoop L ?nums [0, 1, 2] p"
        by (simp only: parseField_Acceleration[OF key] simp_thms if_False)
      then show ?thesis
        using True by (simp only: ok accelLoop_3_ok_iff simp_thms)
    next
      case False
      then have "snd (parseField L field p) \<noteq> None"
        by (auto simp only: parseField_Acceleration[OF key] snd_conv split: if_splits)
      then show ?thesis using False ok by blast
    qed
  qed
qed

lemma parseField_unrecognised: "fieldKey field = None \<Longrightarrow> parseField L field p = (p, None)"
  by (auto simp: parseField_def fieldKey_def split: if_splits)

lemma fieldsLoop_ok_iff: "(snd (fieldsLoop L fs p) = None) = list_all (fieldOk L) fs"
proof (induction fs arbitrary: p)
  case Nil
  then show ?case by simp
next
  case (Cons f fs)
  obtain p' e where pf: "parseField L f p = (p', e)" by (cases "parseField L f p")
  have "(e = None) = fieldOk L f" using parseField_ok_iff[of L f p] pf by simp
  then show ?case using Cons.IH[of p'] pf by (cases e) auto
qed

lemma fieldsLoop_append:
  "fieldsLoop L (fs @ gs) p =
     (case fieldsLoop L fs p of (p', Some err) \<Rightarrow> (p', Some err) | (p', None) \<Rightarrow> fieldsLoop L gs p')"
  by (induction fs arbitrary: p) (auto split: prod.splits option.splits)

lemma fieldsLoop_filter:
  "fieldsLoop L (filter (\<lambda>f. fieldKey f \<noteq> None) fs) p = fieldsLoop L fs p"
  by (induction fs arbitrary: p) (auto simp: parseField_unrecognised split: prod.splits option.splits)

lemma HasPrefix_Cons:
  "HasPrefix s (c # p) = (case s of [] \<Rightarrow> False | x # r \<Rightarrow> x = c \<and> HasPrefix r p)"
  by (cases s) (auto simp: HasPrefix_def)

lemma fieldKey_Time: "(fieldKey f = Some KTime) = HasPrefix f ''Time-''"
  by (simp add: fieldKey_def)

lemma fieldKey_Latitude: "(fieldKey f = Some KLatitude) = HasPrefix f ''Latitude-''"
  by (auto simp: fieldKey_def HasPrefix_Cons split: list.splits)

lemma fieldKey_Longitude: "(fieldKey f = Some KLongitude) = HasPrefix f ''Longitude-''"
  by (auto simp: fieldKey_def HasPrefix_Cons split: list.splits)

lemma fieldKey_Satellites: "(fieldKey f = Some KSatellites) = HasPrefix f ''Satellites-''"
  by (auto simp: fieldKey_def HasPrefix_Cons split: list.splits)

lemma fieldKey_Acceleration: "(fieldKey f = Some KAcceleration) = HasPrefix f ''Acceleration''"
  by (auto simp: fieldKey_def HasPrefix_Cons split: list.splits)

lemmas fieldKey_prefix =
  fieldKey_Time fieldKey_Latitude fieldKey_Longitude fieldKey_Satellites fieldKey_Acceleration

lemma accel_shape:
  assumes "rejectsColon L"
  shows "(length (Split f CHR '':'') = 2 \<and>
          length (Split (Split f CHR '':'' ! 1) CHR '','') = 3 \<and>
          list_all (parses (ParseFloat L)) (Split (Split f CHR '':'' ! 1) CHR '','')) =
         (length (accelComponents f) = 3 \<and> list_all (parses (ParseFloat L)) (accelComponents f))"
proof (cases "CHR '':'' \<in> set f")
  case False
  then show ?thesis by (simp add: Split_no_sep accelComponents_def)
next
  case True
  let ?v = "accelValue f"
  have sp: "Split f CHR '':'' = takeWhile (\<lambda>x. x \<noteq> CHR '':'') f # Split ?v CHR '':''"
    using True by (subst Split_Cons_eq) (simp add: accelValue_def)
  have comps: "accelComponents f = Split ?v CHR '',''"
    using True by (simp add: accelComponents_def)
  show ?thesis
  proof (cases "CHR '':'' \<in> set ?v")
    case False
    then have "Split ?v CHR '':'' = [?v]" by (rule Split_no_sep)
    then show ?thesis by (simp add: sp comps)
  next
    case inv: True
    then have "length (Split ?v CHR '':'') \<noteq> 1"
      by (simp add: length_Split count_list_0_iff)
    then have l: "length (Split f CHR '':'') \<noteq> 2" by (simp add: sp)
    obtain p where p: "p \<in> set (Split ?v CHR '','')" "CHR '':'' \<in> set p"
      using Split_covers[OF inv, of "CHR '',''"] by auto
    then have "\<not> parses (ParseFloat L) p" using assms by (simp add: rejectsColon_def)
    with p(1) have "\<not> list_all (parses (ParseFloat L)) (accelComponents f)"
      by (auto simp: comps list_all_iff)
    with l show ?thesis by simp
  qed
qed

lemma fieldOk_prefix:
  assumes "rejectsColon L"
  shows "fieldOk L f = (\<not> prefixFieldFails L f)"
proof (cases "fieldKey f")
  case None
  then have "\<not> HasPrefix f ''Latitude-''" "\<not> HasPrefix f ''Longitude-''"
    "\<not> HasPrefix f ''Satellites-''" "\<not> HasPrefix f ''Acceleration''"
    using fieldKey_prefix[of f] by simp_all
  then show ?thesis using None by (simp add: fieldOk_def prefixFieldFails_def)
next
  case (Some k)
  then show ?thesis
    using fieldKey_prefix[of f] accel_shape[OF assms, of f]
    by (cases k) (simp_all add: fieldOk_def prefixFieldFails_def)
qed

lemma ParsePacket_framed:
  "TrimSpace line \<noteq> [] \<Longrightarrow> 6 \<le> length (Split (TrimSpace line) CHR '';'') \<Longrightarrow>
   ParsePacket L line = fieldsLoop L (drop 1 (Split (TrimSpace line) CHR '';'')) zeroPacket"
  by (simp add: ParsePacket_def Let_def)

lemma ParsePacket_fails_iff:
  "(snd (ParsePacket L line) \<noteq> None) =
     (TrimSpace line = [] \<or> length (Split (TrimSpace line) CHR '';'') < 6 \<or>
      \<not> list_all (fieldOk L) (drop 1 (Split (TrimSpace line) CHR '';'')))"
  by (simp add: ParsePacket_def Let_def fieldsLoop_ok_iff del: not_None_eq)

lemma ParsePacket_short:
  "length (Split line CHR '';'') < 6 \<Longrightarrow>
   snd (ParsePacket L line) \<noteq> None \<and> fst (ParsePacket L line) = zeroPacket"
  by (simp add: ParsePacket_def Let_def TrimSpace_length_Split)

lemma lastWith_Nil: "lastWith k [] = None"
  by (simp add: lastWith_def)

lemma lastWith_snoc:
  "lastWith k (fs @ [f]) = (if fieldKey f = Some k then Some f else lastWith k fs)"
  by (simp add: lastWith_def Let_def)

lemma parseField_length:
  "length (Acceleration (fst (parseField L f p))) = length (Acceleration p)"
  unfolding parseField_def Let_def
  by (simp add: accelLoop_other split: sum.splits del: accelLoop.simps)

lemma parseField_step:
  assumes "parseField L f p1 = (p, None)" "length (Acceleration p1) = 3"
    and "lastWins L fs p0 p1"
  shows "lastWins L (fs @ [f]) p0 p"
proof (cases "fieldKey f")
  case None
  then have "p = p1" using assms(1) by (simp add: parseField_unrecognised)
  then show ?thesis using assms(3) None by (auto simp: lastWins_def lastWith_snoc split: option.splits)
next
  case (Some k)
  show ?thesis
  proof (cases k)
    case KTime
    then have "p = p1\<lparr>Time := TrimPrefix f ''Time-''\<rparr>"
      using Some assms(1) by (simp add: parseField_Time)
    then show ?thesis using assms(3) Some KTime by (auto simp: lastWins_def lastWith_snoc split: option.splits)
  next
    case KLatitude
    then obtain v where "ParseFloat L (TrimPrefix f ''Latitude-'') = Inr v" "p = p1\<lparr>Latitude := v\<rparr>"
      using Some assms(1) by (auto simp: parseField_Latitude split: sum.splits)
    then show ?thesis using assms(3) Some KLatitude by (auto simp: lastWins_def lastWith_snoc split: option.splits)
  next
    case KLongitude
    then obtain v where "ParseFloat L (TrimPrefix f ''Longitude-'') = Inr v" "p = p1\<lparr>Longitude := v\<rparr>"
      using Some assms(1) by (auto simp: parseField_Longitude split: sum.splits)
    then show ?thesis using assms(3) Some KLongitude by (auto simp: lastWins_def lastWith_snoc split: option.splits)
  next
    case KSatellites
    then obtain v where "Atoi L (TrimPrefix f ''Satellites-'') = Inr v" "p = p1\<lparr>Satellites := v\<rparr>"
      using Some assms(1) by (auto simp: parseField_Satellites split: sum.splits)
    then show ?thesis using assms(3) Some KSatellites by (auto simp: lastWins_def lastWith_snoc split: option.splits)
  next
    case KAcceleration
    with Some have key: "fieldKey f = Some KAcceleration" by simp
    let ?nums = "Split (Split f CHR '':'' ! 1) CHR '',''"
    have "fieldOk L f" using parseField_ok_iff[of L f p1] assms(1) by simp
    then have len: "length ?nums = 3" "length (Split f CHR '':'') = 2"
      by (simp_all add: fieldOk_def key)
    then have run: "accelLoop L ?nums [0, 1, 2] p1 = (p, None)"
      using assms(1) by (simp only: parseField_Acceleration[OF key] simp_thms if_False)
    have acc: "map (ParseFloat L) ?nums = map Inr (Acceleration p)"
      by (rule accelLoop_3_success[OF len(1) assms(2) run])
    have "p = fst (accelLoop L ?nums [0, 1, 2] p1)" using run by simp
    then have same: "Time p = Time p1" "Latitude p = Latitude p1" "Longitude p = Longitude p1"
      "Satellites p = Satellites p1"
      using accelLoop_other[of L ?nums "[0, 1, 2]" p1] by simp_all
    show ?thesis using assms(3) key acc same
      by (auto simp: lastWins_def lastWith_snoc split: option.splits)
  qed
qed

lemma fieldsLoop_lastWins:
  "fieldsLoop L fs p0 = (p, None) \<Longrightarrow> length (Acceleration p0) = 3 \<Longrightarrow>
   lastWins L fs p0 p \<and> length (Acceleration p) = 3"
proof (induction fs arbitrary: p rule: rev_induct)
  case Nil
  then show ?case by (simp add: lastWins_def lastWith_Nil)
next
  case (snoc f fs)
  from snoc.prems(1) obtain p1 where
    p1: "fieldsLoop L fs p0 = (p1, None)" "parseField L f p1 = (p, None)"
    by (auto simp: fieldsLoop_append split: prod.splits option.splits)
  from snoc.IH[OF p1(1) snoc.prems(2)] have ih: "lastWins L fs p0 p1" "length (Acceleration p1) = 3"
    by simp_all
  have "length (Acceleration p) = 3"
    using parseField_length[of L f p1] p1(2) ih(2) by simp
  then show ?case using parseField_step[OF p1(2) ih(2) ih(1)] by simp
qed

lemma lastWins_unique:
  assumes "lastWins L fs p0 p" "lastWins L fs' p0 p'"
    and "\<And>k. lastWith k fs = lastWith k fs'"
  shows "p = (p' :: 'f Packet)"
proof -
  have "map Inr (Acceleration p) = (map Inr (Acceleration p') :: (error + 'f) list)
        \<Longrightarrow> Acceleration p = Acceleration p'"
    by (simp add: inj_map_eq_map)
  then show ?thesis
    using assms(1,2) assms(3)[of KTime] assms(3)[of KLatitude] assms(3)[of KLongitude]
      assms(3)[of KSatellites] assms(3)[of KAcceleration]
    by (auto simp: lastWins_def split: option.splits)
qed

lemma filter_perm_unique:
  assumes "mset fs = mset fs'" "length (filter P fs) \<le> 1"
  shows "filter P fs = filter P fs'"
proof -
  have m: "mset (filter P fs) = mset (filter P fs')" using assms(1) by (metis mset_filter)
  then have "length (filter P fs') = length (filter P fs)" by (metis size_mset)
  then show ?thesis using m assms(2)
    by (cases "filter P fs"; cases "filter P fs'") auto
qed

lemma uniqueKeys_all: "uniqueKeys fs \<Longrightarrow> length (filter (\<lambda>f. fieldKey f = Some k) fs) \<le> 1"
  by (cases k) (simp_all add: uniqueKeys_def)

lemma lastWith_perm:
  "mset fs = mset fs' \<Longrightarrow> uniqueKeys fs \<Longrightarrow> lastWith k fs = lastWith k fs'"
  using filter_perm_unique[of fs fs' "\<lambda>f. fieldKey f = Some k"] uniqueKeys_all[of fs k]
  by (simp add: lastWith_def)

lemma ParsePacket_fieldsOf:
  "6 \<le> length (Split line CHR '';'') \<Longrightarrow>
   ParsePacket L line = fieldsLoop L (fieldsOf line) zeroPacket"
proof -
  assume a: "6 \<le> length (Split line CHR '';'')"
  then have b: "6 \<le> length (Split (TrimSpace line) CHR '';'')" by (simp add: TrimSpace_length_Split)
  then have "TrimSpace line \<noteq> []" by auto
  then show ?thesis using b by (simp add: ParsePacket_framed fieldsOf_def)
qed

lemma list_all_perm: "mset xs = mset ys \<Longrightarrow> list_all P xs = list_all P ys"
  by (metis list_all_iff set_mset_mset)

lemma digitsValue_bad: "c \<in> set s \<Longrightarrow> digitOf c = None \<Longrightarrow> digitsValue s acc = None"
  by (induction s arbitrary: acc) (auto split: option.splits)

lemma dropWhile_tail:
  assumes "x \<in> set (dropWhile P xs)" "P x"
  shows "x \<in> set (drop 1 (dropWhile P xs))"
proof (cases "dropWhile P xs")
  case Nil
  with assms(1) show ?thesis by (metis empty_iff list.set(1))
next
  case (Cons y ys)
  then have "\<not> P y" by (metis hd_dropWhile list.sel(1) list.distinct(1))
  then have "x \<noteq> y" using assms(2) by auto
  then show ?thesis using assms(1) Cons by simp
qed

lemma refParseFloat_colon:
  assumes "CHR '':'' \<in> set s"
  shows "\<not> parses refParseFloat s"
proof -
  obtain neg ds where sg: "signOf s = (neg, ds)" by (cases "signOf s")
  have inds: "CHR '':'' \<in> set ds"
    using assms sg by (cases s) (auto simp: signOf_def split: if_splits)
  let ?ip = "takeWhile (\<lambda>c. c \<noteq> CHR ''.'') ds"
  let ?rest = "dropWhile (\<lambda>c. c \<noteq> CHR ''.'') ds"
  let ?fp = "drop 1 ?rest"
  have nd: "digitOf CHR '':'' = None" by (simp add: digitOf_def)
  have "set ds = set ?ip \<union> set ?rest" by (metis set_append takeWhile_dropWhile_id)
  with inds have "CHR '':'' \<in> set ?ip \<or> CHR '':'' \<in> set ?rest" by blast
  then have "CHR '':'' \<in> set ?ip \<or> CHR '':'' \<in> set ?fp"
    using dropWhile_tail[of "CHR '':''" "\<lambda>c. c \<noteq> CHR ''.''" ds] by auto
  then have d: "digitsValue ?ip 0 = None \<or> digitsValue ?fp 0 = None"
    by (metis digitsValue_bad nd)
  have "refParseFloat s =
         (if ?ip = [] \<and> ?fp = [] then Inl (NumError ''ParseFloat'' s)
          else (case (digitsValue ?ip 0, digitsValue ?fp 0) of
            (Some a, Some b) \<Rightarrow>
              Inr ((if neg then - 1 else 1) * (of_nat a + of_nat b / 10 ^ length ?fp))
          | _ \<Rightarrow> Inl (NumError ''ParseFloat'' s)))"
    by (simp only: refParseFloat_def sg Let_def prod.case)
  then show ?thesis using d
    by (auto simp: parses_def split: option.splits)
qed

lemma refStrconv_rejectsColon: "rejectsColon refStrconv"
  by (simp add: rejectsColon_def refStrconv_def refParseFloat_colon)

lemma TrimSpace_id: "leadingSpace s = 0 \<Longrightarrow> trailingSpace s = 0 \<Longrightarrow> TrimSpace s = s"
  by (simp add: TrimSpace_def TrimLeft.simps TrimRight.simps)

lemmas eval_strings =
  leadingSpace_def trailingSpace_def spaceEncodings_def HasPrefix_def HasSuffix_def TrimPrefix_def

lemmas eval_ref =
  refStrconv_def refParseFloat_def refAtoi_def signOf_def digitOf_def parses_def

text \<open>
  The two readings of the contract compared: the conditions of the specification imply
  those of the decoder, and the two agree on fields where a colon follows \<open>Acceleration\<close>.
\<close>

lemma HasPrefix_append: "HasPrefix s (p @ q) \<Longrightarrow> HasPrefix s p"
proof -
  assume "HasPrefix s (p @ q)"
  then have "take (length (p @ q)) s = p @ q" by (simp add: HasPrefix_def)
  then have "take (length p) (take (length (p @ q)) s) = p" by simp
  then show ?thesis by (simp add: HasPrefix_def min_def)
qed

lemma HasPrefix_Acceleration_colon:
  "HasPrefix f ''Acceleration:'' \<Longrightarrow> HasPrefix f ''Acceleration''"
  using HasPrefix_append[of f "''Acceleration''" "'':''"] by simp

lemma specKey_fieldKey: "colonAfterKey f \<Longrightarrow> specKey f = fieldKey f"
  using HasPrefix_Acceleration_colon[of f]
  by (auto simp: colonAfterKey_def specKey_def fieldKey_def)

lemma accelComponents_colon:
  assumes "HasPrefix f ''Acceleration:''"
  shows "accelComponents f = Split (TrimPrefix f ''Acceleration:'') CHR '',''"
proof -
  from assms have "f = ''Acceleration:'' @ drop (length ''Acceleration:'') f"
    by (metis HasPrefix_def append_take_drop_id)
  then obtain r where r: "f = ''Acceleration:'' @ r" ..
  have "TrimPrefix f ''Acceleration:'' = r" using assms by (simp add: TrimPrefix_def r)
  moreover have "accelComponents f = Split r CHR '',''"
    by (simp add: accelComponents_def accelValue_def r)
  ultimately show ?thesis by simp
qed

lemma prefixFieldFails_spec:
  "prefixFieldFails L f =
     (specFieldFails L f \<or>
      (HasPrefix f ''Acceleration'' \<and> \<not> HasPrefix f ''Acceleration:'' \<and>
       \<not> (length (accelComponents f) = 3 \<and> list_all (parses (ParseFloat L)) (accelComponents f))))"
  using HasPrefix_Acceleration_colon[of f] accelComponents_colon[of f]
  unfolding prefixFieldFails_def specFieldFails_def by metis

lemma specFieldFails_prefix: "specFieldFails L f \<Longrightarrow> prefixFieldFails L f"
  by (simp add: prefixFieldFails_spec)

lemma prefixFieldFails_colon: "colonAfterKey f \<Longrightarrow> prefixFieldFails L f = specFieldFails L f"
  by (auto simp: prefixFieldFails_spec colonAfterKey_def)

lemma specDecodeFails_prefix: "specDecodeFails L line \<Longrightarrow> prefixDecodeFails L line"
  unfolding specDecodeFails_def prefixDecodeFails_def Let_def list_ex_iff
  using specFieldFails_prefix by blast

lemma prefixDecodeFails_colon:
  assumes "list_all colonAfterKey (fieldsOf line)"
  shows "prefixDecodeFails L line = specDecodeFails L line"
proof -
  have "list_ex (prefixFieldFails L) (fieldsOf line) = list_ex (specFieldFails L) (fieldsOf line)"
    using assms prefixFieldFails_colon unfolding list_ex_iff list_all_iff by blast
  then show ?thesis
    by (simp add: prefixDecodeFails_def specDecodeFails_def Let_def fieldsOf_def)
qed

lemma filter_specRecognised:
  assumes "list_all colonAfterKey fs"
  shows "filter specRecognised fs = filter recognisedByPrefix fs"
proof (rule filter_cong[OF refl])
  fix f assume "f \<in> set fs"
  then have "colonAfterKey f" using assms by (simp add: list_all_iff)
  then show "specRecognised f = recognisedByPrefix f"
    by (simp add: specRecognised_def recognisedByPrefix_def specKey_fieldKey)
qed

section \<open>Facts about the bounded buffers\<close>

lemma lastN_lastN_append: "lastN n (lastN n xs @ ys) = lastN n (xs @ ys)"
proof (cases "length xs \<le> n")
  case True
  then show ?thesis by (simp add: lastN_def)
next
  case False
  then have "length xs + length ys - n = (length xs - n) + length ys" by simp
  then have "lastN n (xs @ ys) = drop (length ys) (drop (length xs - n) (xs @ ys))"
    by (simp add: lastN_def add.commute)
  also have "\<dots> = drop (length ys) (drop (length xs - n) xs @ ys)" by simp
  finally show ?thesis using False by (simp add: lastN_def)
qed

lemma length_lastN: "length (lastN n xs) \<le> n"
  by (simp add: lastN_def)

lemma truncateTo_lastN: "truncateTo n xs = lastN n xs"
  by (simp add: truncateTo_def lastN_def)

lemma lastN_id: "length xs \<le> n \<Longrightarrow> lastN n xs = xs"
  by (simp add: lastN_def)

lemma enqueue_closed:
  assumes "length (buf c) \<le> cap c" "0 < cap c"
  shows "enqueue k1 k2 c p =
     Some (c\<lparr>buf :=
        (if length (buf c) < cap c then buf c
         else drop (k1 + (if k1 < length (buf c) then 1 else 0) + k2) (buf c)) @ [p]\<rparr>)"
proof (cases "length (buf c) < cap c")
  case True
  then show ?thesis by (simp add: enqueue_def trySend_def)
next
  case False
  with assms have full: "length (buf c) = cap c" by simp
  show ?thesis
  proof (cases "drop k1 (buf c)")
    case Nil
    then have "\<not> k1 < length (buf c)" by simp
    then show ?thesis using Nil full assms(2)
      by (simp add: enqueue_def trySend_def received_def tryRecv_def)
  next
    case (Cons x rest)
    then have k: "k1 < length (buf c)" by (metis drop_eq_Nil list.distinct(1) not_le)
    have rest: "rest = drop (Suc k1) (buf c)"
      using Cons by (metis drop_Suc list.sel(3) tl_drop)
    have "length rest < cap c" using rest full k by simp
    then have "length (drop k2 rest) < cap c" by simp
    then show ?thesis using Cons full k rest
      by (simp add: enqueue_def trySend_def received_def tryRecv_def add.commute)
  qed
qed

lemma enqueue_inv:
  assumes "length (buf c) \<le> cap c" "0 < cap c"
  shows "\<exists>c' n. enqueue k1 k2 c p = Some c' \<and> cap c' = cap c \<and> length (buf c') \<le> cap c \<and>
           n \<le> length (buf c) \<and> buf c' = drop n (buf c) @ [p]"
proof (cases "length (buf c) < cap c")
  case True
  then have "enqueue k1 k2 c p = Some (c\<lparr>buf := buf c @ [p]\<rparr>)"
    by (simp add: enqueue_closed[OF assms])
  then show ?thesis using True by (intro exI[of _ "c\<lparr>buf := buf c @ [p]\<rparr>"] exI[of _ 0]) simp
next
  case False
  let ?m = "k1 + (if k1 < length (buf c) then 1 else 0) + k2"
  let ?n = "min ?m (length (buf c))"
  have e: "enqueue k1 k2 c p = Some (c\<lparr>buf := drop ?m (buf c) @ [p]\<rparr>)"
    using False by (simp add: enqueue_closed[OF assms])
  have pos: "0 < ?m \<or> buf c = []" by auto
  have "length (buf c) \<noteq> 0" using False assms by simp
  then have "length (drop ?m (buf c)) < cap c" using pos assms by auto
  moreover have "drop ?m (buf c) = drop ?n (buf c)" by (simp add: min_def)
  ultimately show ?thesis using e
    by (intro exI[of _ "c\<lparr>buf := drop ?m (buf c) @ [p]\<rparr>"] exI[of _ ?n]) simp
qed

lemma run_inv:
  "length (buf c) \<le> cap c \<Longrightarrow> 0 < cap c \<Longrightarrow>
   \<exists>c' n. run es c = Some c' \<and> cap c' = cap c \<and> length (buf c') \<le> cap c \<and>
          buf c' = drop n (buf c @ offered es)"
proof (induction es arbitrary: c)
  case Nil
  then show ?case by (intro exI[of _ c] exI[of _ 0]) simp
next
  case (Cons e es)
  show ?case
  proof (cases e)
    case (Offer p k1 k2)
    from enqueue_inv[OF Cons.prems, of k1 k2 p] obtain c1 n where
      c1: "enqueue k1 k2 c p = Some c1" "cap c1 = cap c" "length (buf c1) \<le> cap c"
        "n \<le> length (buf c)" "buf c1 = drop n (buf c) @ [p]"
      by blast
    from Cons.IH[of c1] c1(2,3) Cons.prems(2) obtain c' m where
      c': "run es c1 = Some c'" "cap c' = cap c1" "length (buf c') \<le> cap c1"
        "buf c' = drop m (buf c1 @ offered es)"
      by auto
    have "buf c' = drop (m + n) (buf c @ p # offered es)"
      using c'(4) c1(4,5) by (simp add: add.commute)
    then show ?thesis using Offer c1 c'
      by (intro exI[of _ c'] exI[of _ "m + n"]) simp
  next
    case Take
    let ?c1 = "case tryRecv c of Some (_, c') \<Rightarrow> c' | None \<Rightarrow> c"
    have c1: "cap ?c1 = cap c" "length (buf ?c1) \<le> cap c"
      "\<exists>n. n \<le> length (buf c) \<and> buf ?c1 = drop n (buf c)"
      using Cons.prems(1)
      by (auto simp: tryRecv_def split: list.splits intro: exI[of _ 0] exI[of _ 1])
    then obtain n where n: "n \<le> length (buf c)" "buf ?c1 = drop n (buf c)" by blast
    from Cons.IH[of ?c1] c1(1,2) Cons.prems(2) obtain c' m where
      c': "run es ?c1 = Some c'" "cap c' = cap ?c1" "length (buf c') \<le> cap ?c1"
        "buf c' = drop m (buf ?c1 @ offered es)"
      by auto
    have "buf c' = drop (m + n) (buf c @ offered es)"
      using c'(4) n by (simp add: add.commute)
    then show ?thesis using Take c1 c'
      by (intro exI[of _ c'] exI[of _ "m + n"]) simp
  qed
qed

lemma run_offers:
  "length (buf c) \<le> cap c \<Longrightarrow> 0 < cap c \<Longrightarrow>
   run (map (\<lambda>p. Offer p 0 0) ps) c = Some (c\<lparr>buf := lastN (cap c) (buf c @ ps)\<rparr>)"
proof (induction ps arbitrary: c)
  case Nil
  then show ?case by (simp add: lastN_id)
next
  case (Cons p ps)
  let ?c1 = "c\<lparr>buf := lastN (cap c) (buf c @ [p])\<rparr>"
  have "enqueue 0 0 c p = Some ?c1"
    using Cons.prems by (auto simp: enqueue_closed lastN_def)
  moreover have "length (buf ?c1) \<le> cap ?c1" "0 < cap ?c1"
    using Cons.prems by (simp_all add: length_lastN)
  ultimately show ?case
    using Cons.IH[of ?c1] by (simp add: lastN_lastN_append)
qed

lemma drainOne_Series:
  "Series (drainOne G p state) = lastN seriesCapacity (Series state @ [Float32 G (Acceleration p ! 2)])"
  by (simp add: drainOne_def Let_def truncateTo_lastN)

lemma drainOne_LogLines:
  "LogLines (drainOne G p state) = lastN logCapacity (LogLines state @ [logLine G p])"
  by (simp add: drainOne_def Let_def truncateTo_lastN)

lemma drain_closed:
  "length (Series state) \<le> seriesCapacity \<Longrightarrow> length (LogLines state) \<le> logCapacity \<Longrightarrow>
   Series (fst (drain G c state)) =
     lastN seriesCapacity (Series state @ map (\<lambda>p. Float32 G (Acceleration p ! 2)) (buf c)) \<and>
   LogLines (fst (drain G c state)) =
     lastN logCapacity (LogLines state @ map (logLine G) (buf c)) \<and>
   snd (drain G c state) = c\<lparr>buf := []\<rparr>"
proof (induction G c state rule: drain.induct)
  case (1 G c state)
  show ?case
  proof (cases "buf c")
    case Nil
    then have "drain G c state = (state, c)" by (simp add: tryRecv_def)
    then show ?thesis using Nil 1(2,3) by (simp add: lastN_id)
  next
    case (Cons p rest)
    let ?c' = "c\<lparr>buf := rest\<rparr>"
    have t: "tryRecv c = Some (p, ?c')" using Cons by (simp add: tryRecv_def)
    then have d: "drain G c state = drain G ?c' (drainOne G p state)" by simp
    have i: "length (Series (drainOne G p state)) \<le> seriesCapacity"
      "length (LogLines (drainOne G p state)) \<le> logCapacity"
      by (simp_all add: drainOne_Series drainOne_LogLines length_lastN)
    from 1(1)[OF t refl i] show ?thesis
      unfolding d using Cons
      by (simp add: drainOne_Series drainOne_LogLines lastN_lastN_append)
  qed
qed

lemma act_inv:
  "length (Series state) \<le> seriesCapacity \<Longrightarrow> length (LogLines state) \<le> logCapacity \<Longrightarrow>
   length (Series (act G a state)) \<le> seriesCapacity \<and>
   length (LogLines (act G a state)) \<le> logCapacity"
proof (cases a)
  case (Drained c)
  assume "length (Series state) \<le> seriesCapacity" "length (LogLines state) \<le> logCapacity"
  from drain_closed[OF this, of G c] show ?thesis
    using Drained by (simp add: length_lastN)
next
  case (Logged ls)
  assume "length (Series state) \<le> seriesCapacity" "length (LogLines state) \<le> logCapacity"
  then show ?thesis using Logged by (simp add: truncateTo_lastN length_lastN)
next
  case Cleared
  then show ?thesis by simp
qed

lemma session_inv:
  "length (Series state) \<le> seriesCapacity \<Longrightarrow> length (LogLines state) \<le> logCapacity \<Longrightarrow>
   length (Series (session G as state)) \<le> seriesCapacity \<and>
   length (LogLines (session G as state)) \<le> logCapacity"
proof (induction as arbitrary: state)
  case Nil
  then show ?case by simp
next
  case (Cons a as)
  from act_inv[OF Cons.prems, of G a] Cons.IH[of "act G a state"] show ?case by simp
qed

section \<open>Facts about the store and the export engine\<close>

lemma elems_append1: "elems (append1 s x) = elems s @ [x]"
  by (cases s) simp_all

lemma scanPackets_Inr:
  "scanPackets ss acc = Inr ps \<Longrightarrow> \<exists>rs. ss = map Inr rs \<and> elems ps = elems acc @ rs"
proof (induction ss acc rule: scanPackets.induct)
  case (1 packets)
  then show ?case by simp
next
  case (2 err rest packets)
  then show ?case by simp
next
  case (3 p rest packets)
  then obtain rs where "rest = map Inr rs" "elems ps = elems (append1 packets p) @ rs" by auto
  then show ?case by (intro exI[of _ "p # rs"]) (simp add: elems_append1)
qed

lemma scanSeries_Inr:
  "scanSeries G ss acc = Inr zs \<Longrightarrow>
   \<exists>rs. ss = map Inr rs \<and> elems zs = elems acc @ map (\<lambda>r. Float32 G (AccelerationZ r)) rs"
proof (induction G ss acc rule: scanSeries.induct)
  case (1 G series)
  then show ?case by simp
next
  case (2 G err rest series)
  then show ?case by simp
next
  case (3 G r rest series)
  then obtain rs where "rest = map Inr rs"
    "elems zs = elems (append1 series (Float32 G (AccelerationZ r))) @ map (\<lambda>r. Float32 G (AccelerationZ r)) rs"
    by auto
  then show ?case by (intro exI[of _ "r # rs"]) (simp add: elems_append1)
qed

lemma delivers_complete:
  assumes "delivers rows rs" "rowsErr rows = None" "scans rows = map Inr xs"
  shows "xs = rs"
proof (rule nth_equalityI)
  show "length xs = length rs" using assms by (simp add: delivers_def)
next
  fix i assume "i < length xs"
  then show "xs ! i = rs ! i" using assms by (simp add: delivers_def)
qed

lemma delivers_empty: "delivers rows [] \<Longrightarrow> scans rows = []"
  by (simp add: delivers_def)

lemma answers_empty: "answers q [] rs \<Longrightarrow> rs = []"
  by (auto simp: answers_def split: option.splits)

lemma GetPackets_answers:
  assumes "sqlContract M" "GetPackets M d limit = (ps, None)"
  shows "answers (selectQuery DESC limit) (packetsTable d) (elems ps)"
proof -
  from assms(2) obtain rows where
    q: "Query M (selectQuery DESC limit) (packetsTable d) = Inr rows"
    and s: "scanPackets (scans rows) NilSlice = Inr ps" and e: "rowsErr rows = None"
    by (auto simp: GetPackets_def split: sum.splits option.splits)
  from scanPackets_Inr[OF s] have sc: "scans rows = map Inr (elems ps)" by simp
  from assms(1) q obtain rs where
    rs: "answers (selectQuery DESC limit) (packetsTable d) rs" "delivers rows rs"
    unfolding sqlContract_def by blast
  from delivers_complete[OF rs(2) e sc] rs(1) show ?thesis by simp
qed

lemma GetAccelerationSeries_answers:
  assumes "sqlContract M" "GetAccelerationSeries M G d limit = (zs, None)"
  shows "\<exists>rs. answers (selectQuery ASC limit) (packetsTable d) rs \<and>
           elems zs = map (\<lambda>r. Float32 G (AccelerationZ r)) rs"
proof -
  from assms(2) obtain rows where
    q: "Query M (selectQuery ASC limit) (packetsTable d) = Inr rows"
    and s: "scanSeries G (scans rows) NilSlice = Inr zs" and e: "rowsErr rows = None"
    by (auto simp: GetAccelerationSeries_def split: sum.splits option.splits)
  from scanSeries_Inr[OF s] obtain xs where
    xs: "scans rows = map Inr xs" "elems zs = map (\<lambda>r. Float32 G (AccelerationZ r)) xs"
    by auto
  from assms(1) q obtain rs where
    rs: "answers (selectQuery ASC limit) (packetsTable d) rs" "delivers rows rs"
    unfolding sqlContract_def by blast
  from delivers_complete[OF rs(2) e xs(1)] rs(1) xs(2) show ?thesis by blast
qed

lemma answers_selectQuery:
  "answers (selectQuery dir limit) t rs =
     (\<exists>arranged. mset arranged = mset t \<and> sorted_wrt (before dir) arranged \<and>
        rs = (if limit > 0 then take (nat limit) arranged else arranged))"
  by (simp add: answers_def selectQuery_def)

lemma refMysql_contract: "sqlContract (refMysql :: 'f mysql)"
proof -
  have bd: "before DESC = (\<lambda>a b. CreatedAt b \<le> CreatedAt (a :: 'f StoredPacket))"
    and ba: "before ASC = (\<lambda>a b. CreatedAt (a :: 'f StoredPacket) \<le> CreatedAt b)"
    by (simp_all add: before_def fun_eq_iff)
  have srt: "sorted_wrt (before ASC) (sort_key CreatedAt (t :: 'f StoredPacket list))" for t
    using sorted_sort_key[of CreatedAt t] unfolding ba by (simp add: sorted_map)
  have srtd: "sorted_wrt (before DESC) (rev (sort_key CreatedAt (t :: 'f StoredPacket list)))" for t
    using srt[of t] unfolding ba bd by (simp add: sorted_wrt_rev)
  have "\<exists>rs. answers q t rs \<and> delivers rows rs"
    if "refQuery q (t :: 'f StoredPacket list) = Inr rows" for q t rows
  proof -
    let ?arr = "case orderBy q of ASC \<Rightarrow> sort_key CreatedAt t | DESC \<Rightarrow> rev (sort_key CreatedAt t)"
    let ?rs = "case limitRows q of None \<Rightarrow> ?arr | Some n \<Rightarrow> take n ?arr"
    have r: "rows = \<lparr>scans = map Inr ?rs, rowsErr = None\<rparr>"
      using that by (simp add: refQuery_def Let_def)
    have "mset ?arr = mset t" by (cases "orderBy q") simp_all
    moreover have "sorted_wrt (before (orderBy q)) ?arr"
      using srt srtd by (cases "orderBy q") simp_all
    ultimately have "answers q t ?rs" unfolding answers_def by blast
    moreover have "delivers rows ?rs" by (simp add: r delivers_def)
    ultimately show ?thesis by blast
  qed
  then show ?thesis by (simp add: sqlContract_def refMysql_def)
qed

lemma GetPacketCount_ok:
  "sqlContract M \<Longrightarrow> snd (GetPacketCount M d) = None \<Longrightarrow>
   fst (GetPacketCount M d) = int (length (packetsTable d))"
  by (auto simp: GetPacketCount_def sqlContract_def split: sum.splits)

lemma QueryRowScan_empty:
  assumes "sqlContract M"
  shows "\<exists>err. QueryRowScan M q [] = Inl err"
    and "Query M q [] = Inr rows \<Longrightarrow> rowsErr rows = None \<Longrightarrow> QueryRowScan M q [] = Inl ErrNoRows"
proof -
  have sc: "scans rows' = []" if "Query M q [] = Inr rows'" for rows'
  proof -
    from assms that obtain rs where "answers q [] rs" "delivers rows' rs"
      unfolding sqlContract_def by blast
    then show ?thesis using answers_empty delivers_empty by blast
  qed
  show "\<exists>err. QueryRowScan M q [] = Inl err"
    using sc by (cases "Query M q []") (auto simp: QueryRowScan_def split: option.splits)
  show "QueryRowScan M q [] = Inl ErrNoRows" if "Query M q [] = Inr rows" "rowsErr rows = None"
    using that sc[OF that(1)] by (simp add: QueryRowScan_def)
qed

lemma writeRows_prefix:
  "writeRows G fs n ps out = (e, out') \<Longrightarrow>
   \<exists>k \<le> length ps. out' = out @ map (csvRow G) (take k ps) \<and> (e = None \<longrightarrow> k = length ps)"
proof (induction ps arbitrary: n out)
  case Nil
  then show ?case by simp
next
  case (Cons p ps)
  show ?case
  proof (cases "writeErr fs n")
    case None
    with Cons.prems have "writeRows G fs (Suc n) ps (out @ [csvRow G p]) = (e, out')" by simp
    from Cons.IH[OF this] obtain k where
      k: "k \<le> length ps" "out' = (out @ [csvRow G p]) @ map (csvRow G) (take k ps)"
        "e = None \<longrightarrow> k = length ps"
      by blast
    then show ?thesis by (intro exI[of _ "Suc k"]) simp
  next
    case (Some err)
    with Cons.prems show ?thesis by (intro exI[of _ 0]) auto
  qed
qed

lemma writeRows_ok:
  "writeRows G fs n ps out = (None, out') \<Longrightarrow> out' = out @ map (csvRow G) ps"
  using writeRows_prefix[of G fs n ps out None out'] by auto

lemma writeRows_keeps_head:
  "writeRows G fs n ps (h # out) = (e, out') \<Longrightarrow> out' \<noteq> [] \<and> hd out' = h"
  using writeRows_prefix[of G fs n ps "h # out" e out'] by auto

lemma GetPackets_empty_table:
  assumes "sqlContract M" "packetsTable d = []" "GetPackets M d limit = (packets, None)"
  shows "packets = NilSlice"
proof -
  from assms(3) obtain rows where
    q: "Query M (selectQuery DESC limit) (packetsTable d) = Inr rows"
    and s: "scanPackets (scans rows) NilSlice = Inr packets"
    by (auto simp: GetPackets_def split: sum.splits option.splits)
  from assms(1) q obtain rs where "answers (selectQuery DESC limit) (packetsTable d) rs" "delivers rows rs"
    unfolding sqlContract_def by blast
  then have "scans rows = []" using assms(2) answers_empty delivers_empty by fastforce
  with s show ?thesis by simp
qed

section \<open>Properties of the packet decoder\<close>

text \<open>
  Claim C1 in the specification's reading. The wire format gives the acceleration field
  the form \<open>Acceleration:v1,v2,v3\<close>, and a field of no recognised form is to be ignored.
  The line below has 6 fields and a field \<open>AccelerationBias=4\<close>: it is not empty, no
  numeric field of it fails to parse, and it has no acceleration field, so none of the
  failure conditions of the claim holds. ParsePacket tests the bare word \<open>Acceleration\<close>
  and rejects the line with \<open>bad accel field\<close>, returning the packet decoded so far.
\<close>

theorem ParsePacket_fails_exactly_when_counterexample:
  "rejectsColon refStrconv \<and>
   ParsePacket refStrconv ''a;Time-1;c;d;e;AccelerationBias=4'' =
     (\<lparr>Time = ''1'', Latitude = 0, Longitude = 0, Satellites = 0, Acceleration = [0, 0, 0]\<rparr>,
      Some (ErrorString ''bad accel field'')) \<and>
   \<not> specDecodeFails refStrconv ''a;Time-1;c;d;e;AccelerationBias=4''"
proof -
  let ?c = "''a;Time-1;c;d;e;AccelerationBias=4''"
  have t: "TrimSpace ?c = ?c"
    by (rule TrimSpace_id) (simp_all add: eval_strings)
  have h: "6 \<le> length (Split ?c CHR '';'')" by simp
  have f: "fieldsOf ?c = [''Time-1'', ''c'', ''d'', ''e'', ''AccelerationBias=4'']"
    unfolding fieldsOf_def t by simp
  have a: "ParsePacket refStrconv ?c =
     (\<lparr>Time = ''1'', Latitude = 0, Longitude = 0, Satellites = 0, Acceleration = [0, 0, 0]\<rparr>,
      Some (ErrorString ''bad accel field''))"
    unfolding ParsePacket_fieldsOf[OF h] f
    by (simp add: parseField_def zeroPacket_def eval_strings)
  have b: "\<not> specDecodeFails refStrconv ?c"
    unfolding specDecodeFails_def t
    by (simp add: Let_def specFieldFails_def eval_strings)
  show ?thesis using a b refStrconv_rejectsColon by blast
qed

text \<open>
  Claim C1, with the acceleration field read as ParsePacket reads it. ParsePacket returns
  a non-nil error exactly when the line is empty after trimming whitespace, or it has
  fewer than 6 semicolon-delimited fields, or a field after the first that begins with
  \<open>Latitude-\<close>, \<open>Longitude-\<close> or \<open>Satellites-\<close> has a value that does not parse as a
  number, or a field after the first that begins with \<open>Acceleration\<close> does not have
  exactly 3 comma-separated numeric components after its first colon. The conditions as
  the specification words them are sufficient for the error on every line, and they are
  necessary too on every line in which each field that begins with \<open>Acceleration\<close>
  continues with the colon. In particular a line with fewer than 6 fields always fails,
  and the packet returned with the error is the zero packet: nothing of the line is
  decoded. The comparison holds for every \<open>strconv\<close> whose \<open>ParseFloat\<close> rejects inputs
  that contain a colon, as Go's does.
\<close>

theorem ParsePacket_fails_exactly_when:
  assumes "rejectsColon L"
  shows "(snd (ParsePacket L line) \<noteq> None) = prefixDecodeFails L line \<and>
         (specDecodeFails L line \<longrightarrow> snd (ParsePacket L line) \<noteq> None) \<and>
         (list_all colonAfterKey (fieldsOf line) \<longrightarrow>
            (snd (ParsePacket L line) \<noteq> None) = specDecodeFails L line) \<and>
         (length (Split line CHR '';'') < 6 \<longrightarrow>
            snd (ParsePacket L line) \<noteq> None \<and> fst (ParsePacket L line) = zeroPacket)"
proof -
  have "list_all (fieldOk L) fs = (\<not> list_ex (prefixFieldFails L) fs)" for fs
    by (induction fs) (simp_all add: fieldOk_prefix[OF assms])
  then have a: "(snd (ParsePacket L line) \<noteq> None) = prefixDecodeFails L line"
    by (simp add: ParsePacket_fails_iff prefixDecodeFails_def Let_def del: not_None_eq)
  have b: "snd (ParsePacket L line) \<noteq> None" if "specDecodeFails L line"
    using a specDecodeFails_prefix[OF that] by blast
  have c: "(snd (ParsePacket L line) \<noteq> None) = specDecodeFails L line"
    if "list_all colonAfterKey (fieldsOf line)"
    using a prefixDecodeFails_colon[OF that] by blast
  show ?thesis using a b c ParsePacket_short by blast
qed

theorem ParsePacket_fails_exactly_when_witness:
  "rejectsColon refStrconv \<and>
   specDecodeFails refStrconv ''a;b;c;d;e;Acceleration:1,2'' \<and>
   prefixDecodeFails refStrconv ''a;b;c;d;e;Acceleration:1,2'' \<and>
   snd (ParsePacket refStrconv ''a;b;c;d;e;Acceleration:1,2'') \<noteq> None \<and>
   length (Split ''x;Acceleration:1,2'' CHR '';'') < 6 \<and>
   snd (ParsePacket refStrconv ''x;Acceleration:1,2'') \<noteq> None \<and>
   fst (ParsePacket refStrconv ''x;Acceleration:1,2'') = zeroPacket \<and>
   list_all colonAfterKey (fieldsOf ''a;Time-1;Latitude-2.5;d;e;Acceleration:1,2,3'') \<and>
   \<not> specDecodeFails refStrconv ''a;Time-1;Latitude-2.5;d;e;Acceleration:1,2,3'' \<and>
   \<not> prefixDecodeFails refStrconv ''a;Time-1;Latitude-2.5;d;e;Acceleration:1,2,3'' \<and>
   snd (ParsePacket refStrconv ''a;Time-1;Latitude-2.5;d;e;Acceleration:1,2,3'') = None \<and>
   prefixDecodeFails refStrconv ''a;Time-1;c;d;e;AccelerationBias=4'' \<and>
   snd (ParsePacket refStrconv ''a;Time-1;c;d;e;AccelerationBias=4'') \<noteq> None \<and>
   \<not> prefixDecodeFails refStrconv ''x;a;b;c;d;AccelerationBias:1,2,3'' \<and>
   snd (ParsePacket refStrconv ''x;a;b;c;d;AccelerationBias:1,2,3'') = None"
proof -
  let ?a = "''a;b;c;d;e;Acceleration:1,2''"
  let ?b = "''a;Time-1;Latitude-2.5;d;e;Acceleration:1,2,3''"
  let ?c = "''a;Time-1;c;d;e;AccelerationBias=4''"
  let ?d = "''x;a;b;c;d;AccelerationBias:1,2,3''"
  have t: "TrimSpace ?a = ?a" "TrimSpace ?b = ?b" "TrimSpace ?c = ?c" "TrimSpace ?d = ?d"
    by (rule TrimSpace_id; simp add: eval_strings)+
  have s1: "specDecodeFails refStrconv ?a"
    unfolding specDecodeFails_def t
    by (simp add: Let_def specFieldFails_def eval_strings)
  have s2: "list_all colonAfterKey (fieldsOf ?b)"
    unfolding fieldsOf_def t by (simp add: colonAfterKey_def eval_strings)
  have s3: "\<not> specDecodeFails refStrconv ?b"
    unfolding specDecodeFails_def t
    by (simp add: Let_def specFieldFails_def eval_strings eval_ref)
  have s4: "length (Split ''x;Acceleration:1,2'' CHR '';'') < 6" by simp
  have s5: "prefixDecodeFails refStrconv ?c"
    unfolding prefixDecodeFails_def t
    by (simp add: Let_def prefixFieldFails_def accelComponents_def accelValue_def eval_strings)
  have s6: "\<not> prefixDecodeFails refStrconv ?d"
    unfolding prefixDecodeFails_def t
    by (simp add: Let_def prefixFieldFails_def accelComponents_def accelValue_def eval_strings eval_ref)
  show ?thesis
    using ParsePacket_fails_exactly_when[OF refStrconv_rejectsColon, of ?a]
      ParsePacket_fails_exactly_when[OF refStrconv_rejectsColon, of "''x;Acceleration:1,2''"]
      ParsePacket_fails_exactly_when[OF refStrconv_rejectsColon, of ?b]
      ParsePacket_fails_exactly_when[OF refStrconv_rejectsColon, of ?c]
      ParsePacket_fails_exactly_when[OF refStrconv_rejectsColon, of ?d]
      s1 s2 s3 s4 s5 s6 refStrconv_rejectsColon
    by blast
qed

text \<open>
  Claim C2. The line of the specification's example decodes without error to the packet
  with Time 12:00:00, Satellites 9 and, for Latitude, Longitude and the three acceleration
  components, the floats that \<open>ParseFloat\<close> returns for 54.1, 25.2, 0.1, -0.2 and 0.3.
\<close>

theorem ParsePacket_reference_line:
  assumes "ParseFloat L ''54.1'' = Inr lat" and "ParseFloat L ''25.2'' = Inr lon"
    and "Atoi L ''9'' = Inr 9"
    and "ParseFloat L ''0.1'' = Inr ax" and "ParseFloat L ''-0.2'' = Inr ay"
    and "ParseFloat L ''0.3'' = Inr az"
  shows "ParsePacket L
           ''ignored;Time-12:00:00;Latitude-54.1;Longitude-25.2;Satellites-9;Acceleration:0.1,-0.2,0.3'' =
         (\<lparr>Time = ''12:00:00'', Latitude = lat, Longitude = lon, Satellites = 9,
           Acceleration = [ax, ay, az]\<rparr>, None)"
proof -
  let ?line = "''ignored;Time-12:00:00;Latitude-54.1;Longitude-25.2;Satellites-9;Acceleration:0.1,-0.2,0.3''"
  have t: "TrimSpace ?line = ?line"
    by (rule TrimSpace_id) (simp_all add: eval_strings)
  show ?thesis
    unfolding ParsePacket_def t
    by (simp add: Let_def parseField_def eval_strings zeroPacket_def assms)
qed

theorem ParsePacket_reference_line_witness:
  "ParsePacket refStrconv
     ''ignored;Time-12:00:00;Latitude-54.1;Longitude-25.2;Satellites-9;Acceleration:0.1,-0.2,0.3'' =
   (\<lparr>Time = ''12:00:00'', Latitude = 541 / 10, Longitude = 126 / 5, Satellites = 9,
     Acceleration = [1 / 10, - (1 / 5), 3 / 10]\<rparr>, None)"
  using ParsePacket_reference_line[of refStrconv "541 / 10" "126 / 5" "1 / 10" "- (1 / 5)" "3 / 10"]
  by (simp add: eval_ref)

text \<open>
  Claim C7 in the specification's reading. With the closed key set of the wire format the
  fields \<open>AccelerationBias=4\<close> and \<open>AccelerationBias:1,2,3\<close> have an unrecognised key, so
  the three lines below have the same recognised fields (none) and would decode alike.
  ParsePacket decodes the first to the zero packet, rejects the second with
  \<open>bad accel field\<close>, and decodes the third with the acceleration 1, 2, 3.
\<close>

theorem ParsePacket_field_policy_counterexample:
  "6 \<le> length (Split ''x;a;b;c;d;e'' CHR '';'') \<and>
   6 \<le> length (Split ''x;a;b;c;d;AccelerationBias=4'' CHR '';'') \<and>
   6 \<le> length (Split ''x;a;b;c;d;AccelerationBias:1,2,3'' CHR '';'') \<and>
   filter specRecognised (fieldsOf ''x;a;b;c;d;e'') = [] \<and>
   filter specRecognised (fieldsOf ''x;a;b;c;d;AccelerationBias=4'') = [] \<and>
   filter specRecognised (fieldsOf ''x;a;b;c;d;AccelerationBias:1,2,3'') = [] \<and>
   ParsePacket refStrconv ''x;a;b;c;d;e'' = (zeroPacket, None) \<and>
   ParsePacket refStrconv ''x;a;b;c;d;AccelerationBias=4'' =
     (zeroPacket, Some (ErrorString ''bad accel field'')) \<and>
   ParsePacket refStrconv ''x;a;b;c;d;AccelerationBias:1,2,3'' =
     (\<lparr>Time = [], Latitude = 0, Longitude = 0, Satellites = 0, Acceleration = [1, 2, 3]\<rparr>, None)"
proof -
  let ?x = "''x;a;b;c;d;e''"
  let ?y = "''x;a;b;c;d;AccelerationBias=4''"
  let ?z = "''x;a;b;c;d;AccelerationBias:1,2,3''"
  have t: "TrimSpace ?x = ?x" "TrimSpace ?y = ?y" "TrimSpace ?z = ?z"
    by (rule TrimSpace_id; simp add: eval_strings)+
  have h: "6 \<le> length (Split ?x CHR '';'')" "6 \<le> length (Split ?y CHR '';'')"
    "6 \<le> length (Split ?z CHR '';'')"
    by simp_all
  have f: "fieldsOf ?x = [''a'', ''b'', ''c'', ''d'', ''e'']"
    "fieldsOf ?y = [''a'', ''b'', ''c'', ''d'', ''AccelerationBias=4'']"
    "fieldsOf ?z = [''a'', ''b'', ''c'', ''d'', ''AccelerationBias:1,2,3'']"
    unfolding fieldsOf_def t by simp_all
  have s: "filter specRecognised (fieldsOf ?x) = []" "filter specRecognised (fieldsOf ?y) = []"
    "filter specRecognised (fieldsOf ?z) = []"
    unfolding f by (simp_all add: specRecognised_def specKey_def HasPrefix_def)
  have px: "ParsePacket refStrconv ?x = (zeroPacket, None)"
    unfolding ParsePacket_fieldsOf[OF h(1)] f
    by (simp add: parseField_def zeroPacket_def eval_strings)
  have py: "ParsePacket refStrconv ?y = (zeroPacket, Some (ErrorString ''bad accel field''))"
    unfolding ParsePacket_fieldsOf[OF h(2)] f
    by (simp add: parseField_def zeroPacket_def eval_strings)
  have pz: "ParsePacket refStrconv ?z =
      (\<lparr>Time = [], Latitude = 0, Longitude = 0, Satellites = 0, Acceleration = [1, 2, 3]\<rparr>, None)"
    unfolding ParsePacket_fieldsOf[OF h(3)] f
    by (simp add: parseField_def zeroPacket_def eval_strings eval_ref)
  show ?thesis using h s px py pz by simp
qed

text \<open>
  Claim C7, with the key of a field read as ParsePacket reads it: the case of the
  \<open>switch\<close> that the field takes, so that every field beginning with \<open>Acceleration\<close> has
  the key Acceleration. For lines with at least 6 fields: a field that takes no case is
  ignored (two lines whose fields recognised by prefix agree decode to the same result);
  the fields after the first may come in any order (a permutation of them fails or
  succeeds alike, and when no key is repeated it decodes to the same packet); and when a
  key is repeated the last occurrence wins (every attribute of a decoded packet is the
  value of the last field with its key). On lines in which each field that begins with
  \<open>Acceleration\<close> continues with the colon the claim holds in the specification's own
  reading: two such lines whose recognised fields agree decode to the same result.
\<close>

theorem ParsePacket_field_policy:
  assumes "6 \<le> length (Split l CHR '';'')" "6 \<le> length (Split l' CHR '';'')"
  shows "(filter recognisedByPrefix (fieldsOf l) = filter recognisedByPrefix (fieldsOf l') \<longrightarrow>
            ParsePacket L l = ParsePacket L l') \<and>
         (mset (fieldsOf l) = mset (fieldsOf l') \<longrightarrow>
            (snd (ParsePacket L l) = None) = (snd (ParsePacket L l') = None)) \<and>
         (mset (fieldsOf l) = mset (fieldsOf l') \<and> uniqueKeys (fieldsOf l) \<and>
          snd (ParsePacket L l) = None \<longrightarrow> ParsePacket L l' = ParsePacket L l) \<and>
         (snd (ParsePacket L l) = None \<longrightarrow>
            lastWins L (fieldsOf l) zeroPacket (fst (ParsePacket L l))) \<and>
         (list_all colonAfterKey (fieldsOf l) \<and> list_all colonAfterKey (fieldsOf l') \<and>
          filter specRecognised (fieldsOf l) = filter specRecognised (fieldsOf l') \<longrightarrow>
            ParsePacket L l = ParsePacket L l')"
proof -
  let ?fs = "fieldsOf l" and ?fs' = "fieldsOf l'"
  have P: "ParsePacket L l = fieldsLoop L ?fs zeroPacket"
    and P': "ParsePacket L l' = fieldsLoop L ?fs' zeroPacket"
    using assms by (simp_all add: ParsePacket_fieldsOf)
  have z: "length (Acceleration (zeroPacket :: 'a Packet)) = 3" by (simp add: zeroPacket_def)
  have A: "ParsePacket L l = ParsePacket L l'" if "filter recognisedByPrefix ?fs = filter recognisedByPrefix ?fs'"
    using that fieldsLoop_filter[of L ?fs zeroPacket] fieldsLoop_filter[of L ?fs' zeroPacket]
    unfolding P P' recognisedByPrefix_def by simp
  have B: "(snd (ParsePacket L l) = None) = (snd (ParsePacket L l') = None)"
    if "mset ?fs = mset ?fs'"
    unfolding P P' fieldsLoop_ok_iff using list_all_perm[OF that] by simp
  have D: "lastWins L ?fs zeroPacket (fst (ParsePacket L l))" if "snd (ParsePacket L l) = None"
  proof -
    have "fieldsLoop L ?fs zeroPacket = (fst (ParsePacket L l), None)"
      using that unfolding P by (metis prod.collapse)
    from fieldsLoop_lastWins[OF this z] show ?thesis by simp
  qed
  have C: "ParsePacket L l' = ParsePacket L l"
    if m: "mset ?fs = mset ?fs'" and u: "uniqueKeys ?fs" and s: "snd (ParsePacket L l) = None"
  proof -
    have s': "snd (ParsePacket L l') = None" using B[OF m] s by simp
    have "fieldsLoop L ?fs' zeroPacket = (fst (ParsePacket L l'), None)"
      using s' unfolding P' by (metis prod.collapse)
    from fieldsLoop_lastWins[OF this z] have "lastWins L ?fs' zeroPacket (fst (ParsePacket L l'))"
      by simp
    then have "fst (ParsePacket L l) = fst (ParsePacket L l')"
      using lastWins_unique[OF D[OF s]] lastWith_perm[OF m u] by blast
    then show ?thesis using s s' by (simp add: prod_eq_iff)
  qed
  have E: "ParsePacket L l = ParsePacket L l'"
    if "list_all colonAfterKey ?fs" "list_all colonAfterKey ?fs'"
      and "filter specRecognised ?fs = filter specRecognised ?fs'"
    using that A by (simp add: filter_specRecognised)
  show ?thesis using A B C D E by blast
qed

theorem ParsePacket_field_policy_witness:
  "6 \<le> length (Split ''x;Time-1;Bogus=7;Latitude-2.5;Time-2;Satellites-4'' CHR '';'') \<and>
   6 \<le> length (Split ''y;Time-1;Latitude-2.5;Time-2;ZZ;Satellites-4'' CHR '';'') \<and>
   6 \<le> length (Split ''z;Satellites-4;Acceleration:1,2,3;Latitude-2.5;Time-2;ZZ'' CHR '';'') \<and>
   6 \<le> length (Split ''w;ZZ;Time-2;Satellites-4;Latitude-2.5;Acceleration:1,2,3'' CHR '';'') \<and>
   6 \<le> length (Split ''v;Satellites-4;YY;Acceleration:1,2,3;Latitude-2.5;Time-2'' CHR '';'') \<and>
   6 \<le> length (Split ''q;a;b;Acceleration:1,2,3;d;AccelerationBias:4,5,6'' CHR '';'') \<and>
   ParsePacket refStrconv ''x;Time-1;Bogus=7;Latitude-2.5;Time-2;Satellites-4'' =
     (\<lparr>Time = ''2'', Latitude = 5 / 2, Longitude = 0, Satellites = 4, Acceleration = [0, 0, 0]\<rparr>, None) \<and>
   ParsePacket refStrconv ''y;Time-1;Latitude-2.5;Time-2;ZZ;Satellites-4'' =
     ParsePacket refStrconv ''x;Time-1;Bogus=7;Latitude-2.5;Time-2;Satellites-4'' \<and>
   uniqueKeys (fieldsOf ''z;Satellites-4;Acceleration:1,2,3;Latitude-2.5;Time-2;ZZ'') \<and>
   ParsePacket refStrconv ''w;ZZ;Time-2;Satellites-4;Latitude-2.5;Acceleration:1,2,3'' =
     ParsePacket refStrconv ''z;Satellites-4;Acceleration:1,2,3;Latitude-2.5;Time-2;ZZ'' \<and>
   lastWith KTime (fieldsOf ''x;Time-1;Bogus=7;Latitude-2.5;Time-2;Satellites-4'') = Some ''Time-2'' \<and>
   list_all colonAfterKey (fieldsOf ''z;Satellites-4;Acceleration:1,2,3;Latitude-2.5;Time-2;ZZ'') \<and>
   list_all colonAfterKey (fieldsOf ''v;Satellites-4;YY;Acceleration:1,2,3;Latitude-2.5;Time-2'') \<and>
   filter specRecognised (fieldsOf ''z;Satellites-4;Acceleration:1,2,3;Latitude-2.5;Time-2;ZZ'') =
     filter specRecognised (fieldsOf ''v;Satellites-4;YY;Acceleration:1,2,3;Latitude-2.5;Time-2'') \<and>
   ParsePacket refStrconv ''z;Satellites-4;Acceleration:1,2,3;Latitude-2.5;Time-2;ZZ'' =
     ParsePacket refStrconv ''v;Satellites-4;YY;Acceleration:1,2,3;Latitude-2.5;Time-2'' \<and>
   snd (ParsePacket refStrconv ''q;a;b;Acceleration:1,2,3;d;AccelerationBias:4,5,6'') = None \<and>
   lastWith KAcceleration (fieldsOf ''q;a;b;Acceleration:1,2,3;d;AccelerationBias:4,5,6'') =
     Some ''AccelerationBias:4,5,6'' \<and>
   lastWins refStrconv (fieldsOf ''q;a;b;Acceleration:1,2,3;d;AccelerationBias:4,5,6'') zeroPacket
     (fst (ParsePacket refStrconv ''q;a;b;Acceleration:1,2,3;d;AccelerationBias:4,5,6''))"
proof -
  let ?x = "''x;Time-1;Bogus=7;Latitude-2.5;Time-2;Satellites-4''"
  let ?y = "''y;Time-1;Latitude-2.5;Time-2;ZZ;Satellites-4''"
  let ?z = "''z;Satellites-4;Acceleration:1,2,3;Latitude-2.5;Time-2;ZZ''"
  let ?w = "''w;ZZ;Time-2;Satellites-4;Latitude-2.5;Acceleration:1,2,3''"
  let ?v = "''v;Satellites-4;YY;Acceleration:1,2,3;Latitude-2.5;Time-2''"
  let ?q = "''q;a;b;Acceleration:1,2,3;d;AccelerationBias:4,5,6''"
  have t: "TrimSpace ?x = ?x" "TrimSpace ?y = ?y" "TrimSpace ?z = ?z" "TrimSpace ?w = ?w"
    "TrimSpace ?v = ?v" "TrimSpace ?q = ?q"
    by (rule TrimSpace_id; simp add: eval_strings)+
  have h: "6 \<le> length (Split ?x CHR '';'')" "6 \<le> length (Split ?y CHR '';'')"
    "6 \<le> length (Split ?z CHR '';'')" "6 \<le> length (Split ?w CHR '';'')"
    "6 \<le> length (Split ?v CHR '';'')" "6 \<le> length (Split ?q CHR '';'')"
    by simp_all
  have f: "fieldsOf ?x = [''Time-1'', ''Bogus=7'', ''Latitude-2.5'', ''Time-2'', ''Satellites-4'']"
    "fieldsOf ?y = [''Time-1'', ''Latitude-2.5'', ''Time-2'', ''ZZ'', ''Satellites-4'']"
    "fieldsOf ?z = [''Satellites-4'', ''Acceleration:1,2,3'', ''Latitude-2.5'', ''Time-2'', ''ZZ'']"
    "fieldsOf ?w = [''ZZ'', ''Time-2'', ''Satellites-4'', ''Latitude-2.5'', ''Acceleration:1,2,3'']"
    "fieldsOf ?v = [''Satellites-4'', ''YY'', ''Acceleration:1,2,3'', ''Latitude-2.5'', ''Time-2'']"
    "fieldsOf ?q = [''a'', ''b'', ''Acceleration:1,2,3'', ''d'', ''AccelerationBias:4,5,6'']"
    unfolding fieldsOf_def t by simp_all
  have px: "ParsePacket refStrconv ?x =
      (\<lparr>Time = ''2'', Latitude = 5 / 2, Longitude = 0, Satellites = 4, Acceleration = [0, 0, 0]\<rparr>, None)"
    unfolding ParsePacket_fieldsOf[OF h(1)] f
    by (simp add: parseField_def zeroPacket_def eval_strings eval_ref)
  have okz: "snd (ParsePacket refStrconv ?z) = None"
    unfolding ParsePacket_fieldsOf[OF h(3)] f fieldsLoop_ok_iff
    by (simp add: fieldOk_def fieldKey_def eval_strings eval_ref)
  have okq: "snd (ParsePacket refStrconv ?q) = None"
    unfolding ParsePacket_fieldsOf[OF h(6)] f fieldsLoop_ok_iff
    by (simp add: fieldOk_def fieldKey_def eval_strings eval_ref)
  have r: "filter recognisedByPrefix (fieldsOf ?x) = filter recognisedByPrefix (fieldsOf ?y)"
    unfolding f by (simp add: recognisedByPrefix_def fieldKey_def HasPrefix_def)
  have u: "mset (fieldsOf ?z) = mset (fieldsOf ?w) \<and> uniqueKeys (fieldsOf ?z)"
    unfolding f by (simp add: uniqueKeys_def fieldKey_def HasPrefix_def)
  have lw: "lastWith KTime (fieldsOf ?x) = Some ''Time-2''"
    unfolding f by (simp add: lastWith_def fieldKey_def HasPrefix_def)
  have la: "lastWith KAcceleration (fieldsOf ?q) = Some ''AccelerationBias:4,5,6''"
    unfolding f by (simp add: lastWith_def fieldKey_def HasPrefix_def)
  have ck: "list_all colonAfterKey (fieldsOf ?z)" "list_all colonAfterKey (fieldsOf ?v)"
    unfolding f by (simp_all add: colonAfterKey_def HasPrefix_def)
  have sr: "filter specRecognised (fieldsOf ?z) = filter specRecognised (fieldsOf ?v)"
    unfolding f by (simp add: specRecognised_def specKey_def HasPrefix_def)
  note a = ParsePacket_field_policy[OF h(1) h(2), of refStrconv]
  note b = ParsePacket_field_policy[OF h(3) h(4), of refStrconv]
  note c = ParsePacket_field_policy[OF h(3) h(5), of refStrconv]
  note d = ParsePacket_field_policy[OF h(6) h(6), of refStrconv]
  from a r have y: "ParsePacket refStrconv ?y = ParsePacket refStrconv ?x" by simp
  from b u okz have w: "ParsePacket refStrconv ?w = ParsePacket refStrconv ?z" by blast
  from c ck sr have v: "ParsePacket refStrconv ?z = ParsePacket refStrconv ?v" by blast
  from d okq have q: "lastWins refStrconv (fieldsOf ?q) zeroPacket (fst (ParsePacket refStrconv ?q))"
    by blast
  show ?thesis using h px y u w lw ck sr v okq la q by simp
qed

text \<open>
  Claim C10. In a line with at least 6 fields, a field after the first that begins with
  \<open>Acceleration\<close> and does not split on the colon into exactly two parts makes
  ParsePacket return an error; it is not ignored as a field with an unknown key would be.
\<close>

theorem ParsePacket_bad_accel_field:
  assumes "6 \<le> length (Split line CHR '';'')"
    and "field \<in> set (fieldsOf line)"
    and "HasPrefix field ''Acceleration''"
    and "length (Split field CHR '':'') \<noteq> 2"
  shows "snd (ParsePacket L line) \<noteq> None"
proof -
  have "fieldKey field = Some KAcceleration" using assms(3) by (simp add: fieldKey_Acceleration)
  then have "\<not> fieldOk L field" using assms(4) by (simp add: fieldOk_def)
  then have "\<not> list_all (fieldOk L) (fieldsOf line)" using assms(2) by (auto simp: list_all_iff)
  then show ?thesis
    unfolding ParsePacket_fieldsOf[OF assms(1)] fieldsLoop_ok_iff by simp
qed

theorem ParsePacket_bad_accel_field_witness:
  "6 \<le> length (Split ''a;b;c;d;e;Acceleration-1,2,3'' CHR '';'') \<and>
   ''Acceleration-1,2,3'' \<in> set (fieldsOf ''a;b;c;d;e;Acceleration-1,2,3'') \<and>
   HasPrefix ''Acceleration-1,2,3'' ''Acceleration'' \<and>
   length (Split ''Acceleration-1,2,3'' CHR '':'') \<noteq> 2 \<and>
   snd (ParsePacket refStrconv ''a;b;c;d;e;Acceleration-1,2,3'') \<noteq> None"
proof -
  have t: "TrimSpace ''a;b;c;d;e;Acceleration-1,2,3'' = ''a;b;c;d;e;Acceleration-1,2,3''"
    by (rule TrimSpace_id) (simp_all add: eval_strings)
  have h1: "6 \<le> length (Split ''a;b;c;d;e;Acceleration-1,2,3'' CHR '';'')" by simp
  have h2: "''Acceleration-1,2,3'' \<in> set (fieldsOf ''a;b;c;d;e;Acceleration-1,2,3'')"
    unfolding fieldsOf_def t by simp
  have h3: "HasPrefix ''Acceleration-1,2,3'' ''Acceleration''" by (simp add: HasPrefix_def)
  have h4: "length (Split ''Acceleration-1,2,3'' CHR '':'') \<noteq> 2" by simp
  show ?thesis using ParsePacket_bad_accel_field[OF h1 h2 h3 h4, of refStrconv] h1 h2 h3 h4 by blast
qed

section \<open>Properties of the live buffer and of the drain loop\<close>

text \<open>
  Claim C3. Starting from the channel that runApp makes (capacity 128, empty), after any
  history of enqueues by the reader and receives by the drain loop the enqueue has never
  blocked, the channel holds at most 128 items, and these are a suffix of the packets
  offered, in their arrival order; with an idle drain loop they are the last 128. A single
  enqueue inserts the packet when the channel has room, and when the channel is full it
  removes exactly the oldest item and inserts the packet; whatever the drain loop takes
  in between, the enqueue completes within the capacity and the new packet is the newest
  item.
\<close>

theorem enqueue_drop_oldest:
  fixes es :: "'a event list" and ps :: "'a list" and c :: "'a chan"
  shows
  "(\<exists>c' n. run es packetsChan = Some c' \<and> cap c' = 128 \<and> length (buf c') \<le> 128 \<and>
       buf c' = drop n (offered es)) \<and>
   run (map (\<lambda>p. Offer p 0 0) ps) packetsChan = Some \<lparr>cap = 128, buf = lastN 128 ps\<rparr> \<and>
   (length (buf c) < cap c \<longrightarrow> enqueue k1 k2 c p = Some (c\<lparr>buf := buf c @ [p]\<rparr>)) \<and>
   (length (buf c) = cap c \<and> 0 < cap c \<longrightarrow>
      enqueue 0 0 c p = Some (c\<lparr>buf := tl (buf c) @ [p]\<rparr>) \<and>
      (\<exists>c'. enqueue k1 k2 c p = Some c' \<and> length (buf c') \<le> cap c \<and> last (buf c') = p))"
proof -
  have inv: "length (buf (packetsChan :: 'a chan)) \<le> cap (packetsChan :: 'a chan)" "0 < cap (packetsChan :: 'a chan)"
    by (simp_all add: packetsChan_def make_chan_def packetsCapacity_def)
  have A: "\<exists>c' n. run es packetsChan = Some c' \<and> cap c' = 128 \<and> length (buf c') \<le> 128 \<and>
       buf c' = drop n (offered es)"
    using run_inv[OF inv, of es] by (simp add: packetsChan_def make_chan_def packetsCapacity_def)
  have B: "run (map (\<lambda>p. Offer p 0 0) ps) packetsChan = Some \<lparr>cap = 128, buf = lastN 128 ps\<rparr>"
    using run_offers[OF inv, of ps] by (simp add: packetsChan_def make_chan_def packetsCapacity_def)
  have C: "enqueue k1 k2 c p = Some (c\<lparr>buf := buf c @ [p]\<rparr>)" if "length (buf c) < cap c"
    using that by (simp add: enqueue_def trySend_def)
  have D: "enqueue 0 0 c p = Some (c\<lparr>buf := tl (buf c) @ [p]\<rparr>) \<and>
      (\<exists>c'. enqueue k1 k2 c p = Some c' \<and> length (buf c') \<le> cap c \<and> last (buf c') = p)"
    if "length (buf c) = cap c \<and> 0 < cap c"
  proof -
    from that have i: "length (buf c) \<le> cap c" "0 < cap c" by simp_all
    have "enqueue 0 0 c p = Some (c\<lparr>buf := tl (buf c) @ [p]\<rparr>)"
      using that by (simp add: enqueue_closed[OF i] drop_Suc)
    moreover from enqueue_inv[OF i, of k1 k2 p]
    have "\<exists>c'. enqueue k1 k2 c p = Some c' \<and> length (buf c') \<le> cap c \<and> last (buf c') = p"
      by auto
    ultimately show ?thesis by simp
  qed
  show ?thesis using A B C D by blast
qed

theorem enqueue_drop_oldest_witness:
  "length (buf \<lparr>cap = 128, buf = [1 :: nat]\<rparr>) < cap \<lparr>cap = 128, buf = [1 :: nat]\<rparr> \<and>
   enqueue 0 0 \<lparr>cap = 128, buf = [1 :: nat]\<rparr> 2 = Some \<lparr>cap = 128, buf = [1, 2]\<rparr> \<and>
   length (buf \<lparr>cap = 128, buf = replicate 128 (0 :: nat)\<rparr>) = cap \<lparr>cap = 128, buf = replicate 128 (0 :: nat)\<rparr> \<and>
   0 < cap \<lparr>cap = 128, buf = replicate 128 (0 :: nat)\<rparr> \<and>
   enqueue 0 0 \<lparr>cap = 128, buf = replicate 128 (0 :: nat)\<rparr> 7 =
     Some \<lparr>cap = 128, buf = replicate 127 0 @ [7]\<rparr> \<and>
   run (map (\<lambda>p. Offer p 0 0) [1 :: nat, 2, 3]) packetsChan = Some \<lparr>cap = 128, buf = [1, 2, 3]\<rparr>"
proof -
  let ?c1 = "\<lparr>cap = 128, buf = [1 :: nat]\<rparr>"
  let ?c2 = "\<lparr>cap = 128, buf = replicate 128 (0 :: nat)\<rparr>"
  have h1: "length (buf ?c1) < cap ?c1" by simp
  have h2: "length (buf ?c2) = cap ?c2 \<and> 0 < cap ?c2" by simp
  note t1 = enqueue_drop_oldest[of "[]" "[1 :: nat, 2, 3]" ?c1 0 0 2]
  note t2 = enqueue_drop_oldest[of "[]" "[]" ?c2 0 0 7]
  have a: "enqueue 0 0 ?c1 2 = Some (?c1\<lparr>buf := buf ?c1 @ [2]\<rparr>)"
    using t1 h1 by blast
  have b: "enqueue 0 0 ?c2 7 = Some (?c2\<lparr>buf := tl (buf ?c2) @ [7]\<rparr>)"
    using t2 h2 by blast
  have c: "run (map (\<lambda>p. Offer p 0 0) [1 :: nat, 2, 3]) packetsChan =
      Some \<lparr>cap = 128, buf = lastN 128 [1 :: nat, 2, 3]\<rparr>"
    using t1 by blast
  have d: "lastN 128 [1 :: nat, 2, 3] = [1, 2, 3]" by (simp add: lastN_def)
  have e: "tl (replicate 128 (0 :: nat)) = replicate 127 0"
    by (simp add: tl_replicate)
  show ?thesis
    unfolding a b c d by (simp add: e)
qed

text \<open>
  Claim C8. A drain step that starts with at most 300 samples in the Live Series and at
  most 200 lines in the Log Ring ends within the same bounds, and leaves in each the last
  300 (200) entries of the old content followed by the new entries, in their order: the
  oldest entries are the ones evicted. From the state with which runApp starts, the bounds
  hold after every sequence of drain steps and button actions.
\<close>

theorem drain_bounded_fifo:
  fixes state :: "('f::zero, 'g) UIState" and G :: "('f, 'g, 'r) golib"
  assumes "length (Series state) \<le> seriesCapacity" and "length (LogLines state) \<le> logCapacity"
  shows "length (Series (fst (drain G c state))) \<le> 300 \<and>
         length (LogLines (fst (drain G c state))) \<le> 200 \<and>
         Series (fst (drain G c state)) =
           lastN 300 (Series state @ map (\<lambda>p. Float32 G (Acceleration p ! 2)) (buf c)) \<and>
         LogLines (fst (drain G c state)) = lastN 200 (LogLines state @ map (logLine G) (buf c)) \<and>
         length (Series (session G as zeroUIState)) \<le> 300 \<and>
         length (LogLines (session G as zeroUIState)) \<le> 200"
proof -
  have z: "length (Series (zeroUIState :: ('f, 'g) UIState)) \<le> seriesCapacity"
    "length (LogLines (zeroUIState :: ('f, 'g) UIState)) \<le> logCapacity"
    by (simp_all add: zeroUIState_def)
  show ?thesis
    using drain_closed[OF assms, of G c] session_inv[OF z, of G as]
    by (simp add: length_lastN seriesCapacity_def logCapacity_def)
qed

theorem drain_bounded_fifo_witness:
  "length (Series (zeroUIState\<lparr>Series := replicate 300 (0 :: rat)\<rparr> :: (rat, rat) UIState)) \<le> seriesCapacity \<and>
   length (LogLines (zeroUIState\<lparr>Series := replicate 300 (0 :: rat)\<rparr> :: (rat, rat) UIState)) \<le> logCapacity \<and>
   Series (fst (drain refGolib
     \<lparr>cap = 128, buf = [zeroPacket\<lparr>Acceleration := [1, 2, 3]\<rparr>, zeroPacket\<lparr>Acceleration := [4, 5, 6]\<rparr>]\<rparr>
     (zeroUIState\<lparr>Series := replicate 300 0\<rparr>))) = replicate 298 0 @ [3, 6]"
proof -
  let ?c = "\<lparr>cap = 128, buf = [zeroPacket\<lparr>Acceleration := [1 :: rat, 2, 3]\<rparr>, zeroPacket\<lparr>Acceleration := [4, 5, 6]\<rparr>]\<rparr>"
  let ?s = "zeroUIState\<lparr>Series := replicate 300 (0 :: rat)\<rparr> :: (rat, rat) UIState"
  have h1: "length (Series ?s) \<le> seriesCapacity"
    by (simp add: seriesCapacity_def)
  have h2: "length (LogLines ?s) \<le> logCapacity"
    by (simp add: zeroUIState_def)
  from drain_bounded_fifo[OF h1 h2, of refGolib ?c "[]"]
  have "Series (fst (drain refGolib ?c ?s)) =
      lastN 300 (Series ?s @ map (\<lambda>p. Float32 refGolib (Acceleration p ! 2)) (buf ?c))"
    by blast
  moreover have "lastN 300 (replicate 300 (0 :: rat) @ [3, 6]) = replicate 298 0 @ [3, 6]"
    by (simp add: lastN_def)
  ultimately show ?thesis using h1 h2 by (simp add: refGolib_def del: drain.simps)
qed

section \<open>Properties of the persistence store and of the export engine\<close>

text \<open>
  Claim C4. On the same table, for a server that meets the SQL contract: when GetPackets
  returns without error, its packets are the rows of the table arranged by descending
  creation time (most recent first), all of them when \<open>limit <= 0\<close> and the first \<open>limit\<close>
  of them when \<open>limit > 0\<close>; when GetAccelerationSeries returns without error, its values
  are the z-axis accelerations (converted to \<open>float32\<close>) of the rows arranged by ascending
  creation time (oldest first), capped in the same way.
\<close>

theorem GetPackets_GetAccelerationSeries_order:
  assumes "sqlContract M"
  shows "(GetPackets M d limit = (ps, None) \<longrightarrow>
            (\<exists>arranged. mset arranged = mset (packetsTable d) \<and>
               sorted_wrt (\<lambda>a b. CreatedAt b \<le> CreatedAt a) arranged \<and>
               elems ps = (if limit > 0 then take (nat limit) arranged else arranged))) \<and>
         (GetAccelerationSeries M G d limit = (zs, None) \<longrightarrow>
            (\<exists>arranged. mset arranged = mset (packetsTable d) \<and>
               sorted_wrt (\<lambda>a b. CreatedAt a \<le> CreatedAt b) arranged \<and>
               elems zs = map (\<lambda>r. Float32 G (AccelerationZ r))
                 (if limit > 0 then take (nat limit) arranged else arranged)))"
proof -
  have d: "before DESC = (\<lambda>a b. CreatedAt b \<le> CreatedAt (a :: 'a StoredPacket))"
    and a: "before ASC = (\<lambda>a b. CreatedAt (a :: 'a StoredPacket) \<le> CreatedAt b)"
    by (simp_all add: before_def fun_eq_iff)
  show ?thesis
    using GetPackets_answers[OF assms, of d limit ps]
      GetAccelerationSeries_answers[OF assms, of G d limit zs]
    unfolding answers_selectQuery d a by blast
qed

theorem GetPackets_GetAccelerationSeries_order_witness:
  "sqlContract (refMysql :: rat mysql) \<and>
   GetPackets refMysql \<lparr>packetsTable = [sampleRow 1 1 10, sampleRow 2 2 30, sampleRow 3 3 20]\<rparr> 2 =
     (Slice [sampleRow 2 2 30, sampleRow 3 3 20], None) \<and>
   GetAccelerationSeries refMysql refGolib
     \<lparr>packetsTable = [sampleRow 1 1 10, sampleRow 2 2 30, sampleRow 3 3 20]\<rparr> 2 =
     (Slice [1, 3], None) \<and>
   (\<exists>arranged. mset arranged = mset [sampleRow 1 1 10, sampleRow 2 2 30, sampleRow 3 3 20] \<and>
      sorted_wrt (\<lambda>a b. CreatedAt b \<le> CreatedAt a) arranged \<and>
      [sampleRow 2 2 30, sampleRow 3 3 20] = take 2 arranged) \<and>
   (\<exists>arranged. mset arranged = mset [sampleRow 1 1 10, sampleRow 2 2 30, sampleRow 3 3 20] \<and>
      sorted_wrt (\<lambda>a b. CreatedAt a \<le> CreatedAt b) arranged \<and>
      [1, 3] = map AccelerationZ (take 2 arranged))"
proof -
  let ?d = "\<lparr>packetsTable = [sampleRow 1 1 10, sampleRow 2 2 30, sampleRow 3 3 20]\<rparr>"
  have g: "GetPackets refMysql ?d 2 = (Slice [sampleRow 2 2 30, sampleRow 3 3 20], None)"
    by (simp add: GetPackets_def refMysql_def refQuery_def selectQuery_def sampleRow_def)
  have s: "GetAccelerationSeries refMysql refGolib ?d 2 = (Slice [1, 3], None)"
    by (simp add: GetAccelerationSeries_def refMysql_def refQuery_def selectQuery_def
        sampleRow_def refGolib_def)
  have f: "Float32 refGolib = (\<lambda>x. x)" by (simp add: refGolib_def)
  from GetPackets_GetAccelerationSeries_order[OF refMysql_contract, of ?d 2 "Slice [sampleRow 2 2 30, sampleRow 3 3 20]"
      refGolib "Slice [1, 3]"] g s
  show ?thesis using refMysql_contract by (simp add: f)
qed

text \<open>
  Claim C5. When SavePacketsToCSV returns without error and the deferred flush has written
  the buffer, the file holds the header record followed by one record per packet that
  GetPackets returned, in that order; each record has the columns identifier, time,
  latitude, longitude, satellite count, the three acceleration axes, created and updated
  timestamps, with latitude and longitude formatted by \<open>FormatFloat\<close> at precision 6 and
  the acceleration axes at precision 3. When the query returns no rows (and the file can
  be created and written) the file holds the header alone; and in every case a file that
  is not empty starts with the header.
\<close>

theorem SavePacketsToCSV_layout:
  "(SavePacketsToCSV M G fs d filename limit = (None, content) \<and> flushErr fs = None \<longrightarrow>
      (\<exists>packets. GetPackets M d limit = (packets, None) \<and>
         content = Some
           ([''ID'', ''Time'', ''Latitude'', ''Longitude'', ''Satellites'',
             ''AccelerationX'', ''AccelerationY'', ''AccelerationZ'', ''CreatedAt'', ''UpdatedAt''] #
            map (\<lambda>p. [FormatInt G (ID p), StoredTime p,
                       FormatFloat G (StoredLatitude p) 6, FormatFloat G (StoredLongitude p) 6,
                       FormatInt G (StoredSatellites p),
                       FormatFloat G (AccelerationX p) 3, FormatFloat G (AccelerationY p) 3,
                       FormatFloat G (AccelerationZ p) 3,
                       FormatTime G (CreatedAt p), FormatTime G (UpdatedAt p)])
              (elems packets)))) \<and>
   (GetPackets M d limit = (packets, None) \<and> elems packets = [] \<and>
    createErr fs filename = None \<and> writeErr fs 0 = None \<and> flushErr fs = None \<longrightarrow>
      SavePacketsToCSV M G fs d filename limit =
        (None, Some [[''ID'', ''Time'', ''Latitude'', ''Longitude'', ''Satellites'',
             ''AccelerationX'', ''AccelerationY'', ''AccelerationZ'', ''CreatedAt'', ''UpdatedAt'']])) \<and>
   (SavePacketsToCSV M G fs d filename limit = (err, Some out) \<and> out \<noteq> [] \<longrightarrow>
      hd out = [''ID'', ''Time'', ''Latitude'', ''Longitude'', ''Satellites'',
             ''AccelerationX'', ''AccelerationY'', ''AccelerationZ'', ''CreatedAt'', ''UpdatedAt''])"
proof -
  have row: "csvRow G = (\<lambda>p. [FormatInt G (ID p), StoredTime p,
                       FormatFloat G (StoredLatitude p) 6, FormatFloat G (StoredLongitude p) 6,
                       FormatInt G (StoredSatellites p),
                       FormatFloat G (AccelerationX p) 3, FormatFloat G (AccelerationY p) 3,
                       FormatFloat G (AccelerationZ p) 3,
                       FormatTime G (CreatedAt p), FormatTime G (UpdatedAt p)])"
    by (simp add: csvRow_def fun_eq_iff)
  have A: "\<exists>packets. GetPackets M d limit = (packets, None) \<and>
      content = Some (csvHeader # map (csvRow G) (elems packets))"
    if "SavePacketsToCSV M G fs d filename limit = (None, content) \<and> flushErr fs = None"
    using that
    by (auto simp: SavePacketsToCSV_def Flush_def split: prod.splits option.splits dest: writeRows_ok)
  have B: "SavePacketsToCSV M G fs d filename limit = (None, Some [csvHeader])"
    if "GetPackets M d limit = (packets, None) \<and> elems packets = [] \<and>
        createErr fs filename = None \<and> writeErr fs 0 = None \<and> flushErr fs = None"
    using that by (simp add: SavePacketsToCSV_def Flush_def)
  have C: "hd out = csvHeader"
    if h: "SavePacketsToCSV M G fs d filename limit = (err, Some out) \<and> out \<noteq> []"
  proof -
    from h obtain out0 where o: "out = Flush fs out0" "out0 = [] \<or> hd out0 = csvHeader"
      by (auto simp: SavePacketsToCSV_def split: prod.splits option.splits
          dest: writeRows_keeps_head)
    from h o(1) have "out = out0 \<or> out = take (flushed fs) out0"
      by (auto simp: Flush_def split: option.splits)
    then show ?thesis using h o(2) by (auto simp: hd_take)
  qed
  show ?thesis
    using A B C unfolding row csvHeader_def by blast
qed

theorem SavePacketsToCSV_layout_witness:
  "SavePacketsToCSV refMysql refGolib refFiles \<lparr>packetsTable = [sampleRow 7 (3 / 10) 10]\<rparr> ''out.csv'' 0 =
     (None, Some
       [[''ID'', ''Time'', ''Latitude'', ''Longitude'', ''Satellites'',
         ''AccelerationX'', ''AccelerationY'', ''AccelerationZ'', ''CreatedAt'', ''UpdatedAt''],
        [''7'', ''12:00:00'', ''54.100000'', ''25.200000'', ''9'',
         ''0.100'', ''-0.200'', ''0.300'', ''10'', ''10'']]) \<and>
   SavePacketsToCSV refMysql refGolib refFiles \<lparr>packetsTable = []\<rparr> ''out.csv'' 0 =
     (None, Some
       [[''ID'', ''Time'', ''Latitude'', ''Longitude'', ''Satellites'',
         ''AccelerationX'', ''AccelerationY'', ''AccelerationZ'', ''CreatedAt'', ''UpdatedAt'']])"
proof -
  let ?d = "\<lparr>packetsTable = [sampleRow 7 (3 / 10) 10]\<rparr>"
  let ?e = "\<lparr>packetsTable = ([] :: rat StoredPacket list)\<rparr>"
  let ?hdr = "[''ID'', ''Time'', ''Latitude'', ''Longitude'', ''Satellites'',
         ''AccelerationX'', ''AccelerationY'', ''AccelerationZ'', ''CreatedAt'', ''UpdatedAt'']"
  let ?rec = "\<lambda>p. [FormatInt refGolib (ID p), StoredTime p,
       FormatFloat refGolib (StoredLatitude p) 6, FormatFloat refGolib (StoredLongitude p) 6,
       FormatInt refGolib (StoredSatellites p),
       FormatFloat refGolib (AccelerationX p) 3, FormatFloat refGolib (AccelerationY p) 3,
       FormatFloat refGolib (AccelerationZ p) 3,
       FormatTime refGolib (CreatedAt p), FormatTime refGolib (UpdatedAt p)]"
  let ?out = "snd (SavePacketsToCSV refMysql refGolib refFiles ?d ''out.csv'' 0)"
  have g: "GetPackets refMysql ?d 0 = (Slice [sampleRow 7 (3 / 10) 10], None)"
    by (simp add: GetPackets_def refMysql_def refQuery_def selectQuery_def)
  have g0: "GetPackets refMysql ?e 0 = (NilSlice, None)"
    by (simp add: GetPackets_def refMysql_def refQuery_def selectQuery_def)
  have f: "createErr refFiles ''out.csv'' = None" "writeErr refFiles 0 = None"
    "flushErr refFiles = None"
    by (simp_all add: refFiles_def)
  have ok: "fst (SavePacketsToCSV refMysql refGolib refFiles ?d ''out.csv'' 0) = None"
    by (simp add: SavePacketsToCSV_def g refFiles_def split: prod.splits)
  then have a: "SavePacketsToCSV refMysql refGolib refFiles ?d ''out.csv'' 0 = (None, ?out)"
    by (simp add: prod_eq_iff)
  have r: "?rec (sampleRow 7 (3 / 10) 10) =
      [''7'', ''12:00:00'', ''54.100000'', ''25.200000'', ''9'',
       ''0.100'', ''-0.200'', ''0.300'', ''10'', ''10'']"
    by code_simp
  note t = SavePacketsToCSV_layout[of refMysql refGolib refFiles ?d "''out.csv''" 0 ?out NilSlice None "[]",
      THEN conjunct1, THEN mp]
  note z = SavePacketsToCSV_layout[of refMysql refGolib refFiles ?e "''out.csv''" 0 None NilSlice None "[]",
      THEN conjunct2, THEN conjunct1, THEN mp]
  from t[OF conjI[OF a f(3)]] obtain packets where
    p: "GetPackets refMysql ?d 0 = (packets, None)" "?out = Some (?hdr # map ?rec (elems packets))"
    by blast
  from p(1) g have "packets = Slice [sampleRow 7 (3 / 10) 10]" by (simp only: prod.inject)
  then have "elems packets = [sampleRow 7 (3 / 10) 10]" by simp
  with p(2) have "?out = Some [?hdr, ?rec (sampleRow 7 (3 / 10) 10)]" by (simp only: list.map)
  with a r have one: "SavePacketsToCSV refMysql refGolib refFiles ?d ''out.csv'' 0 =
      (None, Some [?hdr,
        [''7'', ''12:00:00'', ''54.100000'', ''25.200000'', ''9'',
         ''0.100'', ''-0.200'', ''0.300'', ''10'', ''10'']])"
    by (simp only:)
  have zero: "SavePacketsToCSV refMysql refGolib refFiles ?e ''out.csv'' 0 = (None, Some [?hdr])"
    by (rule z) (simp only: g0 f elems.simps simp_thms)
  show ?thesis using one zero by (intro conjI)
qed

text \<open>
  Claim C6 says that exporting an empty store to JSON writes an empty list. What
  SavePacketsToJSON does there: GetPackets returns the nil slice it declared, since the
  row loop never appends to it, and \<open>Encode\<close> writes a nil slice as \<open>null\<close>. So on a server
  that meets the SQL contract, whenever the export of an empty table returns without
  error the file holds \<open>null\<close> and a newline, not \<open>[]\<close>; and the export does return so
  when the query, the creation of the file and the write succeed.
\<close>

theorem SavePacketsToJSON_empty_store:
  assumes "sqlContract M" and "packetsTable d = []"
  shows "(SavePacketsToJSON M G fs d filename limit = (None, content) \<longrightarrow>
            content = Some (''null'' @ [CHR 0x0A])) \<and>
         (Query M (selectQuery DESC limit) [] = Inr rows \<and> rowsErr rows = None \<and>
          createErr fs filename = None \<and> writeErr fs 0 = None \<longrightarrow>
            SavePacketsToJSON M G fs d filename limit = (None, Some (''null'' @ [CHR 0x0A])))"
proof -
  have A: "content = Some (''null'' @ [CHR 0x0A])"
    if "SavePacketsToJSON M G fs d filename limit = (None, content)"
  proof -
    from that obtain packets where g: "GetPackets M d limit = (packets, None)"
      and c: "content = Some (Encode G packets)"
      by (auto simp: SavePacketsToJSON_def split: prod.splits option.splits)
    from GetPackets_empty_table[OF assms g] c show ?thesis by (simp add: Encode_def)
  qed
  have B: "SavePacketsToJSON M G fs d filename limit = (None, Some (''null'' @ [CHR 0x0A]))"
    if h: "Query M (selectQuery DESC limit) [] = Inr rows \<and> rowsErr rows = None \<and>
          createErr fs filename = None \<and> writeErr fs 0 = None"
  proof -
    from assms(1) h obtain rs where "answers (selectQuery DESC limit) [] rs" "delivers rows rs"
      unfolding sqlContract_def by blast
    then have "scans rows = []" using answers_empty delivers_empty by fastforce
    then have "GetPackets M d limit = (NilSlice, None)"
      using h assms(2) by (simp add: GetPackets_def)
    then show ?thesis using h by (simp add: SavePacketsToJSON_def Encode_def)
  qed
  show ?thesis using A B by blast
qed

theorem SavePacketsToJSON_empty_store_witness:
  "sqlContract (refMysql :: rat mysql) \<and>
   packetsTable \<lparr>packetsTable = ([] :: rat StoredPacket list)\<rparr> = [] \<and>
   SavePacketsToJSON refMysql refGolib refFiles \<lparr>packetsTable = []\<rparr> ''out.json'' 0 =
     (None, Some (''null'' @ [CHR 0x0A])) \<and>
   ''null'' @ [CHR 0x0A] \<noteq> ''[]'' @ [CHR 0x0A]"
proof -
  let ?d = "\<lparr>packetsTable = ([] :: rat StoredPacket list)\<rparr>"
  let ?rows = "\<lparr>scans = ([] :: (error + rat StoredPacket) list), rowsErr = None\<rparr>"
  have h: "packetsTable ?d = []" by simp
  have q: "Query refMysql (selectQuery DESC 0) [] = Inr ?rows"
    by (simp add: refMysql_def refQuery_def selectQuery_def)
  have f: "createErr refFiles ''out.json'' = None" "writeErr refFiles 0 = None"
    by (simp_all add: refFiles_def)
  note t = SavePacketsToJSON_empty_store[OF refMysql_contract h, of refGolib refFiles "''out.json''" 0 None ?rows,
      THEN conjunct2, THEN mp]
  have s: "SavePacketsToJSON refMysql refGolib refFiles ?d ''out.json'' 0 =
     (None, Some (''null'' @ [CHR 0x0A]))"
    by (rule t) (simp only: q f Rows.simps simp_thms)
  have n: "''null'' @ [CHR 0x0A] \<noteq> ''[]'' @ [CHR 0x0A]" by simp
  show ?thesis using refMysql_contract h s n by (intro conjI)
qed

text \<open>
  Claim C9. After DeleteAllPackets has returned without error, on a server that meets the
  SQL contract: the table is empty; GetPacketCount, when it returns without error, returns
  0; GetLatestPacket never returns a record, and whenever its query is answered without a
  driver error it returns \<open>(nil, nil)\<close>: the empty store is reported as "none", not as an
  error.
\<close>

theorem DeleteAllPackets_then_empty:
  assumes "sqlContract M" and "DeleteAllPackets M d = (d', None)"
  shows "packetsTable d' = [] \<and>
         (snd (GetPacketCount M d') = None \<longrightarrow> fst (GetPacketCount M d') = 0) \<and>
         fst (GetLatestPacket M d') = None \<and>
         (Query M \<lparr>orderBy = DESC, limitRows = Some 1\<rparr> (packetsTable d') = Inr rows \<and>
          rowsErr rows = None \<longrightarrow> GetLatestPacket M d' = (None, None))"
proof -
  from assms have e: "packetsTable d' = []"
    by (auto simp: DeleteAllPackets_def sqlContract_def split: sum.splits)
  have c: "fst (GetPacketCount M d') = 0" if "snd (GetPacketCount M d') = None"
    using GetPacketCount_ok[OF assms(1) that] e by simp
  let ?q = "\<lparr>orderBy = DESC, limitRows = Some 1\<rparr>"
  from QueryRowScan_empty(1)[OF assms(1), of ?q] obtain err where
    "QueryRowScan M ?q [] = Inl err" by blast
  then have l: "fst (GetLatestPacket M d') = None" by (simp add: GetLatestPacket_def e)
  have n: "GetLatestPacket M d' = (None, None)"
    if "Query M ?q (packetsTable d') = Inr rows \<and> rowsErr rows = None"
    using QueryRowScan_empty(2)[OF assms(1), of ?q rows] that
    by (simp add: GetLatestPacket_def e)
  show ?thesis using e c l n by blast
qed

theorem DeleteAllPackets_then_empty_witness:
  "sqlContract (refMysql :: rat mysql) \<and>
   DeleteAllPackets refMysql \<lparr>packetsTable = [sampleRow 1 1 10, sampleRow 2 2 30]\<rparr> =
     (\<lparr>packetsTable = []\<rparr>, None) \<and>
   GetPacketCount (refMysql :: rat mysql) \<lparr>packetsTable = []\<rparr> = (0, None) \<and>
   GetLatestPacket (refMysql :: rat mysql) \<lparr>packetsTable = []\<rparr> = (None, None)"
proof -
  let ?d = "\<lparr>packetsTable = [sampleRow 1 1 10, sampleRow 2 2 30]\<rparr>"
  let ?d' = "\<lparr>packetsTable = ([] :: rat StoredPacket list)\<rparr>"
  let ?rows = "\<lparr>scans = ([] :: (error + rat StoredPacket) list), rowsErr = None\<rparr>"
  have h: "DeleteAllPackets refMysql ?d = (?d', None)"
    by (simp add: DeleteAllPackets_def refMysql_def)
  have q: "Query refMysql \<lparr>orderBy = DESC, limitRows = Some 1\<rparr> (packetsTable ?d') = Inr ?rows"
    by (simp add: refMysql_def refQuery_def)
  have c: "GetPacketCount (refMysql :: rat mysql) ?d' = (0, None)"
    by (simp add: GetPacketCount_def refMysql_def)
  from DeleteAllPackets_then_empty[OF refMysql_contract h, of ?rows] q
  have "GetLatestPacket refMysql ?d' = (None, None)" by simp
  then show ?thesis using h c refMysql_contract by simp
qed

end
